theory Spec2Isabelle
  imports Complex_Main "HOL-Library.AList" "HOL-Library.Char_ord" "HOL-Library.List_Lexorder"
begin

section \<open>JavaScript values and strings\<close>

text \<open>
  The server of \<^verbatim>\<open>src/server.js\<close> (its second, caching version) receives its
  parameters as JavaScript values: strings from \<^verbatim>\<open>req.query\<close>, any JSON value
  from \<^verbatim>\<open>req.body\<close>, \<^verbatim>\<open>undefined\<close> for a parameter that is absent.
  A number is given by the real value of its double (a JSON body holds no NaN), an
  object or array by the string that \<^verbatim>\<open>ToString\<close> gives for it. Strings are lists
  of characters; the model reads them as ASCII.
\<close>

datatype jsval = JUndefined | JNull | JBool bool | JNum real | JStr string | JObj string

text \<open>\<^verbatim>\<open>!v\<close> is the negation of \<open>truthy v\<close>.\<close>

fun truthy :: "jsval \<Rightarrow> bool" where
  "truthy JUndefined = False"
| "truthy JNull = False"
| "truthy (JBool b) = b"
| "truthy (JNum x) = (x \<noteq> 0)"
| "truthy (JStr s) = (s \<noteq> [])"
| "truthy (JObj s) = True"

datatype js_error = Error (message: string)

record calendar_result =
  Tithi :: string
  Paksha :: string
  Nakshatra :: string
  Yoga :: string
  Karna :: string
  Masa :: string
  Raasi :: string
  Ritu :: string

record sun_result =
  sunRise :: string
  sunSet :: string

text \<open>
  What the server calls and this theory leaves open: the two methods of the
  \<^verbatim>\<open>mhah-panchang\<close> object and the formatting of a double. The server calls
  \<^verbatim>\<open>calendar(new Date(date), parseFloat(lat), parseFloat(lng))\<close>; the three arguments
  are functions of the string of \<^verbatim>\<open>date\<close> and of the strings of \<^verbatim>\<open>lat\<close> and
  \<^verbatim>\<open>lng\<close> (\<^verbatim>\<open>parseFloat\<close> converts its argument to a string first), so here
  \<open>calendar\<close> and \<open>sunTimer\<close> take these strings. \<open>Inl\<close> is a throw, also one by
  the reads \<^verbatim>\<open>result.Tithi.name_en_IN\<close>, ... of the result. The fields of the results
  are taken to be strings.
\<close>

record host =
  calendar :: "string \<Rightarrow> string \<Rightarrow> string \<Rightarrow> js_error + calendar_result"
  sunTimer :: "string \<Rightarrow> string \<Rightarrow> string \<Rightarrow> js_error + sun_result"
  Number_toString :: "real \<Rightarrow> string"

text \<open>The conversion of a template literal \<^verbatim>\<open>`${v}`\<close>.\<close>

fun ToString :: "host \<Rightarrow> jsval \<Rightarrow> string" where
  "ToString h JUndefined = ''undefined''"
| "ToString h JNull = ''null''"
| "ToString h (JBool b) = (if b then ''true'' else ''false'')"
| "ToString h (JNum x) = Number_toString h x"
| "ToString h (JStr s) = s"
| "ToString h (JObj s) = s"

text \<open>The string of a natural number (\<^verbatim>\<open>month.toString()\<close>, \<^verbatim>\<open>`${currentYear}`\<close>).\<close>

definition digit :: "nat \<Rightarrow> char" where
  "digit n = ''0123456789'' ! (n mod 10)"

fun nat_toString :: "nat \<Rightarrow> string" where
  "nat_toString n = (if n < 10 then [digit n] else nat_toString (n div 10) @ [digit (n mod 10)])"

declare nat_toString.simps [simp del]

text \<open>\<^verbatim>\<open>String.prototype.toLowerCase\<close>, on ASCII.\<close>

definition lower_char :: "char \<Rightarrow> char" where
  "lower_char c =
     (if CHR ''A'' \<le> c \<and> c \<le> CHR ''Z'' then char_of (of_char c + (32::nat)) else c)"

definition toLowerCase :: "string \<Rightarrow> string" where
  "toLowerCase s = map lower_char s"

section \<open>The dates of the current year\<close>

text \<open>
  \<^verbatim>\<open>String.prototype.padLeft = function (length, character) {
    return (Array(length).join(character) + this).slice(-length); }\<close>
  \<^verbatim>\<open>Array(n).join(c)\<close> is \<open>n - 1\<close> copies of \<open>c\<close>; \<^verbatim>\<open>slice(-n)\<close> keeps the last
  \<open>n\<close> characters, and \<^verbatim>\<open>slice(-0)\<close> the whole string.
\<close>

definition padLeft :: "string \<Rightarrow> nat \<Rightarrow> string \<Rightarrow> string" where
  "padLeft this len character =
     (let s = concat (replicate (len - 1) character) @ this
      in if len = 0 then s else drop (length s - len) s)"

definition isLeapYear :: "nat \<Rightarrow> bool" where
  "isLeapYear y \<longleftrightarrow> y mod 4 = 0 \<and> (y mod 100 \<noteq> 0 \<or> y mod 400 = 0)"

text \<open>
  \<^verbatim>\<open>new Date(currentYear, month, 0).getDate()\<close> for \<open>month\<close> from 1 to 12: day 0 of
  the month with index \<open>month\<close> is the last day of calendar month \<open>month\<close>. The
  \<^verbatim>\<open>Date\<close> constructor reads a year from 0 to 99 as 1900 plus that year.
\<close>

definition Date_year :: "nat \<Rightarrow> nat" where
  "Date_year y = (if y \<le> 99 then 1900 + y else y)"

definition daysInMonth :: "nat \<Rightarrow> nat \<Rightarrow> nat" where
  "daysInMonth currentYear month =
     (if month = 2 then (if isLeapYear (Date_year currentYear) then 29 else 28)
      else if month = 4 \<or> month = 6 \<or> month = 9 \<or> month = 11 then 30
      else 31)"

definition dateStr :: "nat \<Rightarrow> nat \<Rightarrow> nat \<Rightarrow> string" where
  "dateStr currentYear month day =
     nat_toString currentYear @ ''-'' @ padLeft (nat_toString month) 2 ''0'' @ ''-'' @
     padLeft (nat_toString day) 2 ''0''"

text \<open>
  \<^verbatim>\<open>getDatesInCurrentYear\<close>; \<open>currentYear\<close> is what \<^verbatim>\<open>new Date().getFullYear()\<close>
  returns at the call. The two \<^verbatim>\<open>for\<close> loops run over months 1 to 12 and days 1 to
  \<open>daysInMonth\<close>.
\<close>

definition getDatesInCurrentYear :: "nat \<Rightarrow> string list" where
  "getDatesInCurrentYear currentYear =
     concat (map (\<lambda>month. map (\<lambda>day. dateStr currentYear month day)
                            [1..<Suc (daysInMonth currentYear month)])
                 [1..<13])"

section \<open>The caches\<close>

text \<open>
  The record that \<^verbatim>\<open>getPanchangData\<close> builds and \<^verbatim>\<open>GET /panchang\<close> answers with.
  \<^verbatim>\<open>date\<close>, \<^verbatim>\<open>latitude\<close> and \<^verbatim>\<open>longitude\<close> are the arguments as they came.
\<close>

record panchang_data =
  date :: jsval
  latitude :: jsval
  longitude :: jsval
  tithi :: string
  paksha :: string
  nakshatra :: string
  yoga :: string
  karna :: string
  masa :: string
  raasi :: string
  ritu :: string
  sunrise :: string
  sunset :: string

text \<open>An element of \<^verbatim>\<open>matchingDates\<close> and the \<^verbatim>\<open>result\<close> of a search.\<close>

record matching_date =
  m_date :: jsval
  m_tithi :: string
  m_paksha :: string
  m_nakshatra :: string
  m_sunrise :: string
  m_sunset :: string

record search_result =
  r_tithi :: jsval
  r_location :: string
  totalMatches :: nat
  r_dates :: "matching_date list"

text \<open>
  The variables that the closure \<^verbatim>\<open>processBatch\<close> of \<^verbatim>\<open>POST /cache-year\<close> reads and
  writes; \<^verbatim>\<open>setImmediate(processBatch)\<close> queues the closure.
\<close>

record warm_job =
  j_dates :: "string list"
  j_lat :: jsval
  j_lng :: jsval
  cachedCount :: nat
  currentBatch :: nat

datatype lib_call = Calendar string string string | SunTimer string string string

text \<open>
  The state of the process: the two \<^verbatim>\<open>Map\<close>s, the queue of \<^verbatim>\<open>setImmediate\<close>
  callbacks, the lines written by \<^verbatim>\<open>console.error\<close>, and a log of the calls made to
  the library, which the program does not keep: it is there so that "no computation"
  can be stated.

  A \<^verbatim>\<open>Map\<close> with string keys is an association list in insertion order:
  \<^verbatim>\<open>has\<close> and \<^verbatim>\<open>get\<close> are \<open>map_of\<close>, \<^verbatim>\<open>set\<close> is \<open>AList.update\<close> (it replaces the
  value of a key that is there and appends a new key), \<^verbatim>\<open>size\<close> is \<open>length\<close>,
  \<^verbatim>\<open>clear\<close> gives \<open>[]\<close>.
\<close>

record server =
  panchangCache :: "(string \<times> panchang_data) list"
  tithiSearchCache :: "(string \<times> search_result) list"
  immediates :: "warm_job list"
  console :: "string list"
  lib_calls :: "lib_call list"

definition init_server :: server where
  "init_server = \<lparr>panchangCache = [], tithiSearchCache = [], immediates = [], console = [],
     lib_calls = []\<rparr>"

definition Map_has :: "(string \<times> 'v) list \<Rightarrow> string \<Rightarrow> bool" where
  "Map_has m k \<longleftrightarrow> map_of m k \<noteq> None"

definition console_error :: "string \<Rightarrow> server \<Rightarrow> server" where
  "console_error line st = st\<lparr>console := console st @ [line]\<rparr>"

definition called :: "lib_call \<Rightarrow> server \<Rightarrow> server" where
  "called c st = st\<lparr>lib_calls := lib_calls st @ [c]\<rparr>"

text \<open>\<^verbatim>\<open>function getCacheKey(date, lat, lng) { return `${date}_${lat}_${lng}`; }\<close>\<close>

definition getCacheKey :: "host \<Rightarrow> jsval \<Rightarrow> jsval \<Rightarrow> jsval \<Rightarrow> string" where
  "getCacheKey h date' lat lng =
     ToString h date' @ ''_'' @ ToString h lat @ ''_'' @ ToString h lng"

text \<open>The object literal \<^verbatim>\<open>panchangData\<close> of \<^verbatim>\<open>getPanchangData\<close>.\<close>

definition panchangData_of ::
  "jsval \<Rightarrow> jsval \<Rightarrow> jsval \<Rightarrow> calendar_result \<Rightarrow> sun_result \<Rightarrow> panchang_data" where
  "panchangData_of date' lat lng result sun =
     \<lparr>date = date', latitude = lat, longitude = lng, tithi = Tithi result,
      paksha = Paksha result, nakshatra = Nakshatra result, yoga = Yoga result,
      karna = Karna result, masa = Masa result, raasi = Raasi result, ritu = Ritu result,
      sunrise = sunRise sun, sunset = sunSet sun\<rparr>"

definition failed :: "js_error \<Rightarrow> js_error" where
  "failed e = Error (''Failed to calculate panchang: '' @ message e)"

text \<open>
  \<^verbatim>\<open>getPanchangData(date, lat, lng)\<close>: the cached record on a hit; otherwise the two
  library calls inside \<^verbatim>\<open>try\<close>, \<^verbatim>\<open>panchangCache.set\<close> and the record, or the new
  error thrown from \<^verbatim>\<open>catch\<close>. \<^verbatim>\<open>date\<close> is a string (or an array or object of a
  query string) wherever the server calls it, so \<^verbatim>\<open>new Date(date)\<close> is a function of
  its string.
\<close>

definition getPanchangData ::
  "host \<Rightarrow> jsval \<Rightarrow> jsval \<Rightarrow> jsval \<Rightarrow> server \<Rightarrow> (js_error + panchang_data) \<times> server" where
  "getPanchangData h date' lat lng st =
     (let cacheKey = getCacheKey h date' lat lng in
      case map_of (panchangCache st) cacheKey of
        Some cached \<Rightarrow> (Inr cached, st)
      | None \<Rightarrow>
          (let d = ToString h date'; la = ToString h lat; lo = ToString h lng;
               st1 = called (Calendar d la lo) st in
           case calendar h d la lo of
             Inl e \<Rightarrow> (Inl (failed e), st1)
           | Inr result \<Rightarrow>
               (let st2 = called (SunTimer d la lo) st1 in
                case sunTimer h d la lo of
                  Inl e \<Rightarrow> (Inl (failed e), st2)
                | Inr sun \<Rightarrow>
                    (let panchangData = panchangData_of date' lat lng result sun in
                     (Inr panchangData,
                      st2\<lparr>panchangCache :=
                            AList.update cacheKey panchangData (panchangCache st2)\<rparr>)))))"

section \<open>The routes\<close>

datatype response_body =
    ErrorBody string
  | PanchangBody panchang_data
  | CacheYearBody string nat string
  | SearchBody search_result
  | TithisBody "string list" string string
  | StatsBody nat nat string
  | MessageBody string

type_synonym response = "nat \<times> response_body"

text \<open>\<^verbatim>\<open>GET /panchang\<close>\<close>

definition get_panchang ::
  "host \<Rightarrow> jsval \<Rightarrow> jsval \<Rightarrow> jsval \<Rightarrow> server \<Rightarrow> response \<times> server" where
  "get_panchang h date' lat lng st =
     (if \<not> truthy date' \<or> \<not> truthy lat \<or> \<not> truthy lng
      then ((400, ErrorBody ''Missing date, lat or lng''), st)
      else case getPanchangData h date' lat lng st of
             (Inr result, st') \<Rightarrow> ((200, PanchangBody result), st')
           | (Inl e, st') \<Rightarrow>
               ((500, ErrorBody ''Internal server error''),
                console_error (''Error: '' @ message e) st'))"

text \<open>
  \<^verbatim>\<open>POST /cache-year\<close>. One pass of the \<^verbatim>\<open>for\<close> loop of \<^verbatim>\<open>processBatch\<close> is
  \<open>cache_date\<close>; the loop runs over the indices from \<^verbatim>\<open>startIdx\<close> up to \<^verbatim>\<open>endIdx\<close>
  of \<^verbatim>\<open>dates\<close>, which are the elements of the slice taken here.
\<close>

definition batchSize :: nat where
  "batchSize = 50"

definition cache_date :: "host \<Rightarrow> jsval \<Rightarrow> jsval \<Rightarrow> string \<Rightarrow> nat \<times> server \<Rightarrow> nat \<times> server" where
  "cache_date h lat lng d acc =
     (case acc of (count, st) \<Rightarrow>
        if \<not> Map_has (panchangCache st) (getCacheKey h (JStr d) lat lng)
        then (case getPanchangData h (JStr d) lat lng st of
                (Inr r, st') \<Rightarrow> (count + 1, st')
              | (Inl e, st') \<Rightarrow>
                  (count, console_error (''Error caching '' @ d @ '': '' @ message e) st'))
        else (count, st))"

definition processBatch :: "host \<Rightarrow> warm_job \<Rightarrow> server \<Rightarrow> server" where
  "processBatch h job st =
     (let startIdx = currentBatch job * batchSize;
          endIdx = min (startIdx + batchSize) (length (j_dates job));
          (count, st') = fold (cache_date h (j_lat job) (j_lng job))
                           (take (endIdx - startIdx) (drop startIdx (j_dates job)))
                           (cachedCount job, st);
          job' = job\<lparr>cachedCount := count, currentBatch := currentBatch job + 1\<rparr>
      in if endIdx < length (j_dates job) then st'\<lparr>immediates := immediates st' @ [job']\<rparr>
         else st')"

text \<open>
  The handler calls \<^verbatim>\<open>processBatch()\<close> once itself and then \<^verbatim>\<open>res.json\<close>: the state
  it returns is the state at the response.
\<close>

definition post_cache_year ::
  "host \<Rightarrow> nat \<Rightarrow> jsval \<Rightarrow> jsval \<Rightarrow> server \<Rightarrow> response \<times> server" where
  "post_cache_year h currentYear lat lng st =
     (if \<not> truthy lat \<or> \<not> truthy lng
      then ((400, ErrorBody ''Missing lat or lng''), st)
      else
        (let dates = getDatesInCurrentYear currentYear;
             job = \<lparr>j_dates = dates, j_lat = lat, j_lng = lng, cachedCount = 0,
                    currentBatch = 0\<rparr>;
             st' = processBatch h job st
         in ((200, CacheYearBody ''Year caching started'' (length dates)
                     (ToString h lat @ '', '' @ ToString h lng)), st')))"

text \<open>
  A turn of the event loop that runs the oldest queued \<^verbatim>\<open>setImmediate\<close> callback.
  Between two such turns the server may handle any request.
\<close>

definition run_immediate :: "host \<Rightarrow> server \<Rightarrow> server" where
  "run_immediate h st =
     (case immediates st of
        [] \<Rightarrow> st
      | job # rest \<Rightarrow> processBatch h job (st\<lparr>immediates := rest\<rparr>))"

text \<open>
  \<^verbatim>\<open>GET /search-tithi\<close>. One pass of the loop over \<^verbatim>\<open>dates\<close> is \<open>search_date\<close>;
  \<^verbatim>\<open>tithi.toLowerCase()\<close> throws inside the \<^verbatim>\<open>try\<close> when \<^verbatim>\<open>tithi\<close> is not a
  string.
\<close>

definition searchKey :: "host \<Rightarrow> jsval \<Rightarrow> jsval \<Rightarrow> jsval \<Rightarrow> string" where
  "searchKey h tithi' lat lng =
     ToString h tithi' @ ''_'' @ ToString h lat @ ''_'' @ ToString h lng"

definition matching_of :: "panchang_data \<Rightarrow> matching_date" where
  "matching_of panchangData =
     \<lparr>m_date = date panchangData, m_tithi = tithi panchangData,
      m_paksha = paksha panchangData, m_nakshatra = nakshatra panchangData,
      m_sunrise = sunrise panchangData, m_sunset = sunset panchangData\<rparr>"

definition search_date ::
  "host \<Rightarrow> jsval \<Rightarrow> jsval \<Rightarrow> jsval \<Rightarrow> string \<Rightarrow> matching_date list \<times> server \<Rightarrow>
   matching_date list \<times> server" where
  "search_date h tithi' lat lng d acc =
     (case acc of (matchingDates, st) \<Rightarrow>
        case getPanchangData h (JStr d) lat lng st of
          (Inl e, st') \<Rightarrow>
            (matchingDates, console_error (''Error processing '' @ d @ '': '' @ message e) st')
        | (Inr panchangData, st') \<Rightarrow>
            if tithi panchangData = [] then (matchingDates, st')
            else (case tithi' of
                    JStr s \<Rightarrow>
                      if toLowerCase (tithi panchangData) = toLowerCase s
                      then (matchingDates @ [matching_of panchangData], st')
                      else (matchingDates, st')
                  | _ \<Rightarrow>
                      (matchingDates,
                       console_error (''Error processing '' @ d @
                         '': tithi.toLowerCase is not a function'') st')))"

definition get_search_tithi ::
  "host \<Rightarrow> nat \<Rightarrow> jsval \<Rightarrow> jsval \<Rightarrow> jsval \<Rightarrow> server \<Rightarrow> response \<times> server" where
  "get_search_tithi h currentYear tithi' lat lng st =
     (if \<not> truthy tithi' \<or> \<not> truthy lat \<or> \<not> truthy lng
      then ((400, ErrorBody ''Missing tithi, lat or lng''), st)
      else
        (let searchKey = searchKey h tithi' lat lng in
         case map_of (tithiSearchCache st) searchKey of
           Some cached \<Rightarrow> ((200, SearchBody cached), st)
         | None \<Rightarrow>
             (let dates = getDatesInCurrentYear currentYear;
                  (matchingDates, st') = fold (search_date h tithi' lat lng) dates ([], st);
                  result = \<lparr>r_tithi = tithi',
                            r_location = ToString h lat @ '', '' @ ToString h lng,
                            totalMatches = length matchingDates, r_dates = matchingDates\<rparr>
              in ((200, SearchBody result),
                  st'\<lparr>tithiSearchCache :=
                        AList.update searchKey result (tithiSearchCache st')\<rparr>))))"

text \<open>
  \<^verbatim>\<open>GET /tithis\<close>. The \<^verbatim>\<open>Set\<close> is the list of its elements in insertion order;
  \<^verbatim>\<open>Array.from(tithis).sort()\<close> sorts strings by their code units.
\<close>

definition Set_add :: "string \<Rightarrow> string list \<Rightarrow> string list" where
  "Set_add x xs = (if x \<in> set xs then xs else xs @ [x])"

definition sampleDates :: "string list \<Rightarrow> string list" where
  "sampleDates dates =
     map fst (filter (\<lambda>(d, index). index mod 15 = 0) (zip dates [0..<length dates]))"

definition sample_date ::
  "host \<Rightarrow> jsval \<Rightarrow> jsval \<Rightarrow> string \<Rightarrow> string list \<times> server \<Rightarrow> string list \<times> server" where
  "sample_date h lat lng d acc =
     (case acc of (tithis, st) \<Rightarrow>
        case getPanchangData h (JStr d) lat lng st of
          (Inl e, st') \<Rightarrow>
            (tithis, console_error (''Error processing '' @ d @ '': '' @ message e) st')
        | (Inr panchangData, st') \<Rightarrow>
            if tithi panchangData \<noteq> [] then (Set_add (tithi panchangData) tithis, st')
            else (tithis, st'))"

definition get_tithis ::
  "host \<Rightarrow> nat \<Rightarrow> jsval \<Rightarrow> jsval \<Rightarrow> server \<Rightarrow> response \<times> server" where
  "get_tithis h currentYear lat lng st =
     (if \<not> truthy lat \<or> \<not> truthy lng
      then ((400, ErrorBody ''Missing lat or lng''), st)
      else
        (let dates = getDatesInCurrentYear currentYear;
             (tithis, st') = fold (sample_date h lat lng) (sampleDates dates) ([], st)
         in ((200, TithisBody (sort tithis) (ToString h lat @ '', '' @ ToString h lng)
                     ''Based on sample dates from current year''), st')))"

text \<open>\<^verbatim>\<open>GET /cache-stats\<close> and \<^verbatim>\<open>DELETE /cache\<close>\<close>

definition get_cache_stats :: "server \<Rightarrow> response \<times> server" where
  "get_cache_stats st =
     ((200, StatsBody (length (panchangCache st)) (length (tithiSearchCache st))
               ''Cache statistics''), st)"

definition delete_cache :: "server \<Rightarrow> response \<times> server" where
  "delete_cache st =
     ((200, MessageBody ''Cache cleared successfully''),
      st\<lparr>panchangCache := [], tithiSearchCache := []\<rparr>)"

text \<open>
  A host for the examples: every date but \<open>''bad''\<close> computes, the tithi of a date that
  ends in \<open>''15''\<close> is Purnima; numbers are formatted as natural numbers, which is all
  the examples use.
\<close>

definition demo_calendar :: "string \<Rightarrow> string \<Rightarrow> string \<Rightarrow> js_error + calendar_result" where
  "demo_calendar d la lo =
     (if d = ''bad'' then Inl (Error ''Invalid time value'')
      else Inr \<lparr>Tithi = (if drop (length d - 2) d = ''15'' then ''Purnima'' else ''Dashami''),
                Paksha = ''Shukla'', Nakshatra = ''Rohini'', Yoga = ''Siddhi'',
                Karna = ''Bava'', Masa = ''Kartika'', Raasi = ''Libra'', Ritu = ''Autumn''\<rparr>)"

definition demo_host :: host where
  "demo_host =
     \<lparr>calendar = demo_calendar,
      sunTimer = (\<lambda>d la lo. Inr \<lparr>sunRise = ''06:10'', sunSet = ''18:05''\<rparr>),
      Number_toString = (\<lambda>x. nat_toString (nat \<lfloor>x\<rfloor>))\<rparr>"

section \<open>Reference definitions\<close>

text \<open>
  The calendar the enumeration is compared with: the Gregorian length of a month, the
  days of a year in order, a date written as the year, two digits for the month and two
  for the day, and a date written with ten characters.
\<close>

definition month_length :: "nat \<Rightarrow> nat \<Rightarrow> nat" where
  "month_length y m =
     (if m \<in> {4, 6, 9, 11} then 30
      else if m = 2 then (if y mod 400 = 0 \<or> (y mod 4 = 0 \<and> y mod 100 \<noteq> 0) then 29 else 28)
      else 31)"

definition calendar_days :: "nat \<Rightarrow> (nat \<times> nat) list" where
  "calendar_days y = concat (map (\<lambda>m. map (\<lambda>d. (m, d)) [1..<Suc (month_length y m)]) [1..<13])"

definition date_text :: "nat \<Rightarrow> nat \<times> nat \<Rightarrow> string" where
  "date_text y md =
     nat_toString y @ [CHR ''-'', digit (fst md div 10), digit (fst md mod 10),
       CHR ''-'', digit (snd md div 10), digit (snd md mod 10)]"

definition iso_date :: "nat \<Rightarrow> nat \<times> nat \<Rightarrow> string" where
  "iso_date y md =
     [digit (y div 1000), digit (y div 100 mod 10), digit (y div 10 mod 10), digit (y mod 10),
      CHR ''-'', digit (fst md div 10), digit (fst md mod 10),
      CHR ''-'', digit (snd md div 10), digit (snd md mod 10)]"

text \<open>Values for the examples.\<close>

definition demo_date :: jsval where "demo_date = JStr ''2025-10-01''"
definition demo_lat :: jsval where "demo_lat = JStr ''12.9716''"
definition demo_lng :: jsval where "demo_lng = JStr ''77.5946''"

definition demo_record :: panchang_data where
  "demo_record = \<lparr>date = demo_date, latitude = demo_lat, longitude = demo_lng,
     tithi = ''Dashami'', paksha = ''Shukla'', nakshatra = ''Rohini'', yoga = ''Siddhi'',
     karna = ''Bava'', masa = ''Kartika'', raasi = ''Libra'', ritu = ''Autumn'',
     sunrise = ''06:10'', sunset = ''18:05''\<rparr>"

text \<open>
  What a lookup of the date \<open>d\<close> returns in the state \<open>st\<close>, what it returns when
  nothing is cached, and the entries that a search for the string \<open>s\<close> takes from
  the date \<open>d\<close>.
\<close>

definition lookup :: "host \<Rightarrow> jsval \<Rightarrow> jsval \<Rightarrow> server \<Rightarrow> string \<Rightarrow> js_error + panchang_data" where
  "lookup h lat lng st d = fst (getPanchangData h (JStr d) lat lng st)"

definition computed :: "host \<Rightarrow> jsval \<Rightarrow> jsval \<Rightarrow> jsval \<Rightarrow> js_error + panchang_data" where
  "computed h d la lo = fst (getPanchangData h d la lo init_server)"

definition search_entries :: "host \<Rightarrow> string \<Rightarrow> jsval \<Rightarrow> jsval \<Rightarrow> server \<Rightarrow> string \<Rightarrow> matching_date list" where
  "search_entries h s la lo st d =
     (case lookup h la lo st d of
        Inr r \<Rightarrow> if toLowerCase (tithi r) = toLowerCase s then [matching_of r] else []
      | Inl e \<Rightarrow> [])"

definition demo_match :: "string \<Rightarrow> matching_date" where
  "demo_match d = \<lparr>m_date = JStr d, m_tithi = ''Purnima'', m_paksha = ''Shukla'',
     m_nakshatra = ''Rohini'', m_sunrise = ''06:10'', m_sunset = ''18:05''\<rparr>"

text \<open>
  A host where one tithi occurs on one date only, the date with index 7 of 2024.
\<close>

definition sparse_host :: host where
  "sparse_host =
     \<lparr>calendar = (\<lambda>d la lo. Inr \<lparr>Tithi = (if d = ''2024-01-08'' then ''Amavasya'' else ''Dashami''),
                Paksha = ''Krishna'', Nakshatra = ''Rohini'', Yoga = ''Siddhi'',
                Karna = ''Bava'', Masa = ''Pausha'', Raasi = ''Capricorn'', Ritu = ''Winter''\<rparr>),
      sunTimer = (\<lambda>d la lo. Inr \<lparr>sunRise = ''06:40'', sunSet = ''18:10''\<rparr>),
      Number_toString = (\<lambda>x. nat_toString (nat \<lfloor>x\<rfloor>))\<rparr>"

text \<open>
  For the warm-up: the library calls that computing the date \<open>d\<close> makes, the line
  that \<^verbatim>\<open>processBatch\<close> logs when computing \<open>d\<close> throws, and whether the key of \<open>d\<close>
  is missing from \<^verbatim>\<open>panchangCache\<close>.
\<close>

definition new_calls :: "host \<Rightarrow> jsval \<Rightarrow> jsval \<Rightarrow> string \<Rightarrow> lib_call list" where
  "new_calls h lat lng d = lib_calls (snd (getPanchangData h (JStr d) lat lng init_server))"

definition caching_errors :: "host \<Rightarrow> jsval \<Rightarrow> jsval \<Rightarrow> string \<Rightarrow> string list" where
  "caching_errors h lat lng d =
     (case computed h (JStr d) lat lng of
        Inl e \<Rightarrow> [''Error caching '' @ d @ '': '' @ message e]
      | Inr r \<Rightarrow> [])"

definition absent :: "host \<Rightarrow> jsval \<Rightarrow> jsval \<Rightarrow> server \<Rightarrow> string \<Rightarrow> bool" where
  "absent h lat lng st d \<longleftrightarrow> \<not> Map_has (panchangCache st) (getCacheKey h (JStr d) lat lng)"

text \<open>The line that \<^verbatim>\<open>GET /tithis\<close> logs when computing the date \<open>d\<close> throws.\<close>

definition sampling_errors :: "host \<Rightarrow> jsval \<Rightarrow> jsval \<Rightarrow> string \<Rightarrow> string list" where
  "sampling_errors h lat lng d =
     (case computed h (JStr d) lat lng of
        Inl e \<Rightarrow> [''Error processing '' @ d @ '': '' @ message e]
      | Inr r \<Rightarrow> [])"

text \<open>
  A job of three dates, one of them rejected by the library, and a state that has the
  first of them cached.
\<close>

definition demo_job :: warm_job where
  "demo_job = \<lparr>j_dates = [''2024-01-01'', ''bad'', ''2024-01-03''], j_lat = demo_lat,
     j_lng = demo_lng, cachedCount = 0, currentBatch = 0\<rparr>"

definition demo_cached :: server where
  "demo_cached = init_server\<lparr>panchangCache :=
     [(''2024-01-01_12.9716_77.5946'', demo_record\<lparr>date := JStr ''2024-01-01''\<rparr>)]\<rparr>"

section \<open>Strings and dates\<close>

lemma lt10_cases: "(i::nat) < 10 \<Longrightarrow> i = 0 \<or> i = 1 \<or> i = 2 \<or> i = 3 \<or> i = 4 \<or> i = 5 \<or> i = 6 \<or> i = 7 \<or> i = 8 \<or> i = 9"
  by arith

lemma of_char_digit: "i < 10 \<Longrightarrow> of_char (digit i) = 48 + i"
  using lt10_cases [of i] by (auto simp: digit_def)

lemma digit_less: "i < 10 \<Longrightarrow> j < 10 \<Longrightarrow> digit i < digit j \<longleftrightarrow> i < j"
  by (simp add: less_char_def of_char_digit)

lemma digit_inj: "i < 10 \<Longrightarrow> j < 10 \<Longrightarrow> digit i = digit j \<longleftrightarrow> i = j"
  by (metis of_char_digit add_left_cancel)

lemma pad2: "n < 100 \<Longrightarrow> padLeft (nat_toString n) 2 ''0'' = [digit (n div 10), digit (n mod 10)]"
proof -
  assume "n < 100"
  then have "n div 10 < 10" by simp
  then show ?thesis
    by (simp add: padLeft_def nat_toString.simps [of n] nat_toString.simps [of "n div 10"] digit_def)
qed

lemma lex10: "r < 10 \<Longrightarrow> r' < 10 \<Longrightarrow> ((10::nat) * q + r < 10 * q' + r') = (q < q' \<or> (q = q' \<and> r < r'))"
  by arith

lemma two_digit_less:
  assumes "m < 100" "n < 100"
  shows "[digit (m div 10), digit (m mod 10)] @ xs < [digit (n div 10), digit (n mod 10)] @ ys \<longleftrightarrow> m < n \<or> (m = n \<and> xs < ys)"
proof -
  have a: "m div 10 < 10" "n div 10 < 10" "m mod 10 < 10" "n mod 10 < 10" using assms by auto
  have d: "m = 10 * (m div 10) + m mod 10" "n = 10 * (n div 10) + n mod 10" by simp_all
  have b: "m < n \<longleftrightarrow> m div 10 < n div 10 \<or> (m div 10 = n div 10 \<and> m mod 10 < n mod 10)"
    using a lex10 [of "m mod 10" "n mod 10" "m div 10" "n div 10"] d by metis
  have c: "m = n \<longleftrightarrow> m div 10 = n div 10 \<and> m mod 10 = n mod 10"
    using d by metis
  have "[digit (m div 10), digit (m mod 10)] @ xs < [digit (n div 10), digit (n mod 10)] @ ys \<longleftrightarrow>
     m div 10 < n div 10 \<or> (m div 10 = n div 10 \<and> (m mod 10 < n mod 10 \<or> (m mod 10 = n mod 10 \<and> xs < ys)))"
    using a by (simp add: digit_less digit_inj)
  then show ?thesis using b c by blast
qed

lemma nat_toString4:
  assumes "1000 \<le> y" "y \<le> 9999"
  shows "nat_toString y = [digit (y div 1000), digit (y div 100 mod 10), digit (y div 10 mod 10), digit (y mod 10)]"
proof -
  have a: "\<not> y < 10" "\<not> y div 10 < 10" "\<not> y div 100 < 10" "y div 1000 < 10"
    using assms by auto
  have b: "y div 10 div 10 = y div 100" "y div 100 div 10 = y div 1000"
    by (simp_all add: div_mult2_eq [symmetric])
  have "nat_toString (y div 1000) = [digit (y div 1000)]"
    using a by (subst nat_toString.simps) simp
  then have "nat_toString (y div 100) = [digit (y div 1000), digit (y div 100 mod 10)]"
    using a b by (subst nat_toString.simps) simp
  then have "nat_toString (y div 10) = [digit (y div 1000), digit (y div 100 mod 10), digit (y div 10 mod 10)]"
    using a b by (subst nat_toString.simps) simp
  then show ?thesis
    using a by (subst nat_toString.simps) simp
qed

lemma daysInMonth_eq: "100 \<le> y \<Longrightarrow> daysInMonth y m = month_length y m"
  by (auto simp: daysInMonth_def month_length_def isLeapYear_def Date_year_def)

lemma daysInMonth_le: "daysInMonth y m \<le> 31"
  by (simp add: daysInMonth_def)

lemma dateStr_iso:
  assumes "1000 \<le> y" "y \<le> 9999" "m < 100" "d < 100"
  shows "dateStr y m d = iso_date y (m, d)"
  using assms by (simp add: dateStr_def iso_date_def nat_toString4 pad2)

lemma dates_eq:
  assumes "1000 \<le> y" "y \<le> 9999"
  shows "getDatesInCurrentYear y = map (iso_date y) (calendar_days y)"
proof -
  have *: "map (\<lambda>day. dateStr y month day) [1..<Suc (daysInMonth y month)]
      = map (iso_date y) (map (\<lambda>d. (month, d)) [1..<Suc (month_length y month)])"
    if "month \<in> set [1..<13]" for month
  proof -
    have "dateStr y month day = iso_date y (month, day)" if "day \<in> set [1..<Suc (daysInMonth y month)]" for day
      using that \<open>month \<in> set [1..<13]\<close> daysInMonth_le [of y month] assms
      by (intro dateStr_iso) auto
    then have "map (\<lambda>day. dateStr y month day) [1..<Suc (daysInMonth y month)]
      = map (\<lambda>d. iso_date y (month, d)) [1..<Suc (daysInMonth y month)]"
      by (intro map_cong [OF refl])
    then show ?thesis using assms by (simp only: daysInMonth_eq map_map comp_def)
  qed
  have "map (\<lambda>month. map (\<lambda>day. dateStr y month day) [1..<Suc (daysInMonth y month)]) [1..<13]
      = map (\<lambda>month. map (iso_date y) (map (\<lambda>d. (month, d)) [1..<Suc (month_length y month)])) [1..<13]"
    by (rule map_cong [OF refl]) (rule *)
  then show ?thesis
    unfolding getDatesInCurrentYear_def calendar_days_def map_concat
    by (simp only: map_map comp_def)
qed

lemma sorted_wrt_concat_map:
  assumes "sorted_wrt P ms"
    and "\<And>m. m \<in> set ms \<Longrightarrow> sorted_wrt R (f m)"
    and "\<And>m m' x x'. P m m' \<Longrightarrow> m \<in> set ms \<Longrightarrow> m' \<in> set ms \<Longrightarrow> x \<in> set (f m) \<Longrightarrow> x' \<in> set (f m') \<Longrightarrow> R x x'"
  shows "sorted_wrt R (concat (map f ms))"
  using assms by (induction ms) (auto simp: sorted_wrt_append)

lemma append_less_append: "(xs @ ys < xs @ (zs :: 'a :: order list)) = (ys < zs)"
  by (induction xs) auto

lemma set_calendar_days:
  "set (calendar_days y) = {(m, d). 1 \<le> m \<and> m \<le> 12 \<and> 1 \<le> d \<and> d \<le> month_length y m}"
  by (force simp: calendar_days_def simp del: upt_Suc)

lemma month_length_le: "month_length y m \<le> 31"
  by (simp add: month_length_def)

lemma length_calendar_days:
  "length (calendar_days y) = (if y mod 400 = 0 \<or> (y mod 4 = 0 \<and> y mod 100 \<noteq> 0) then 366 else 365)"
proof -
  have "[1..<13] = [1,2,3,4,5,6,7,8,9,10,11,12::nat]" by (simp add: upt_rec)
  then show ?thesis by (simp add: calendar_days_def month_length_def length_concat)
qed

lemma hd_calendar_days: "hd (calendar_days y) = (1, 1)"
proof -
  have a: "[1..<13] = 1 # [2..<13]" by (simp add: upt_conv_Cons)
  have b: "[1..<Suc (month_length y 1)] = 1 # [2..<32]"
    by (simp add: month_length_def upt_conv_Cons)
  have "hd (concat (map f (x # xs))) = hd (f x)" if "f x \<noteq> []" for f :: "nat \<Rightarrow> (nat \<times> nat) list" and x xs
    using that by simp
  from this [of "\<lambda>m. map (\<lambda>d. (m, d)) [1..<Suc (month_length y m)]" 1 "[2..<13]"]
  show ?thesis unfolding calendar_days_def a by (simp only: b list.map list.sel) simp
qed

lemma last_calendar_days: "last (calendar_days y) = (12, 31)"
proof -
  have "[1..<Suc 12] = [1..<12] @ [12::nat]" by (rule upt_Suc_append) simp
  then have a: "[1..<13] = [1..<12] @ [12::nat]" by simp
  have "[1..<Suc 31] = [1..<31] @ [31::nat]" by (rule upt_Suc_append) simp
  then have b: "[1..<Suc (month_length y 12)] = [1..<31] @ [31]"
    by (simp add: month_length_def)
  have "last (concat (map f (xs @ [x]))) = last (f x)" if "f x \<noteq> []" for f :: "nat \<Rightarrow> (nat \<times> nat) list" and x xs
    using that by simp
  from this [of "\<lambda>m. map (\<lambda>d. (m, d)) [1..<Suc (month_length y m)]" 12 "[1..<12]"]
  show ?thesis unfolding calendar_days_def a by (simp only: b map_append list.map last_snoc) simp
qed

lemma calendar_days_not_Nil: "calendar_days y \<noteq> []"
  using length_calendar_days [of y] by (auto split: if_splits)

lemma dateStr_less:
  assumes "m < 100" "m' < 100" "d < 100" "d' < 100"
  shows "dateStr y m d < dateStr y m' d' \<longleftrightarrow> m < m' \<or> (m = m' \<and> d < d')"
proof -
  have "dateStr y m d = (nat_toString y @ ''-'') @ ([digit (m div 10), digit (m mod 10)] @
      (CHR ''-'' # [digit (d div 10), digit (d mod 10)] @ []))" if "m < 100" "d < 100" for m d
    using that by (simp add: dateStr_def pad2)
  then show ?thesis
    using assms by (simp only: append_less_append two_digit_less Cons_less_Cons) auto
qed

lemma sorted_dates_all: "sorted_wrt (<) (getDatesInCurrentYear y)"
  unfolding getDatesInCurrentYear_def
proof (rule sorted_wrt_concat_map [where P = "(<)"])
  show "sorted_wrt (<) [1..<13::nat]" by simp
next
  fix m :: nat
  assume "m \<in> set [1..<13]"
  then have m: "m < 100" by simp
  have "sorted_wrt (\<lambda>a b. dateStr y m a < dateStr y m b) [1..<Suc (daysInMonth y m)]"
  proof (rule sorted_wrt_mono_rel [where P = "(<)"])
    fix a b assume "a \<in> set [1..<Suc (daysInMonth y m)]" "b \<in> set [1..<Suc (daysInMonth y m)]" "a < b"
    then show "dateStr y m a < dateStr y m b"
      using daysInMonth_le [of y m] m by (subst dateStr_less) auto
  qed (simp del: upt_Suc)
  then show "sorted_wrt (<) (map (dateStr y m) [1..<Suc (daysInMonth y m)])"
    by (simp add: sorted_wrt_map)
next
  fix m m' :: nat and x x'
  assume "m < m'" "m \<in> set [1..<13]" "m' \<in> set [1..<13]"
    "x \<in> set (map (dateStr y m) [1..<Suc (daysInMonth y m)])"
    "x' \<in> set (map (dateStr y m') [1..<Suc (daysInMonth y m')])"
  then obtain d d' where "x = dateStr y m d" "x' = dateStr y m' d'" "d < 100" "d' < 100" "m < 100" "m' < 100"
    using daysInMonth_le [of y m] daysInMonth_le [of y m'] by auto
  then show "x < x'" using \<open>m < m'\<close> by (simp add: dateStr_less)
qed

lemma distinct_dates_all: "distinct (getDatesInCurrentYear y)"
  using sorted_dates_all [of y] by (simp add: strict_sorted_iff)

lemma length_dates_all:
  "length (getDatesInCurrentYear y) = (if isLeapYear (Date_year y) then 366 else 365)"
proof -
  have "[1..<13] = [1,2,3,4,5,6,7,8,9,10,11,12::nat]" by (simp add: upt_rec)
  then show ?thesis by (simp add: getDatesInCurrentYear_def daysInMonth_def length_concat)
qed

lemma leap_Date_year:
  assumes "1 \<le> y"
  shows "isLeapYear (Date_year y) \<longleftrightarrow> y mod 400 = 0 \<or> (y mod 4 = 0 \<and> y mod 100 \<noteq> 0)"
proof (cases "y \<le> 99")
  case True
  have a: "(1900 + y) mod 4 = y mod 4" "(1900 + y) mod 100 = y" "y mod 100 = y"
    "y mod 400 = y" "(1900 + y) mod 400 \<noteq> 0"
  proof -
    show "y mod 100 = y" "y mod 400 = y" using True by simp_all
    have "1900 + y = y + 475 * 4" by simp
    then show "(1900 + y) mod 4 = y mod 4" by (simp only: mod_mult_self1)
    have "1900 + y = y + 19 * 100" by simp
    then have "(1900 + y) mod 100 = y mod 100" by (simp only: mod_mult_self1)
    then show "(1900 + y) mod 100 = y" using True by simp
    have "1900 + y = (300 + y) + 4 * 400" by simp
    then have "(1900 + y) mod 400 = (300 + y) mod 400" by (simp only: mod_mult_self1)
    then show "(1900 + y) mod 400 \<noteq> 0" using True by simp
  qed
  show ?thesis using True assms by (simp add: isLeapYear_def Date_year_def a)
next
  case False
  then show ?thesis by (auto simp: isLeapYear_def Date_year_def)
qed

lemma daysInMonth_month_length: "1 \<le> y \<Longrightarrow> daysInMonth y m = month_length y m"
  by (auto simp: daysInMonth_def month_length_def leap_Date_year)

lemma dateStr_text: "m < 100 \<Longrightarrow> d < 100 \<Longrightarrow> dateStr y m d = date_text y (m, d)"
  by (simp add: dateStr_def date_text_def pad2)

lemma dates_text:
  assumes "1 \<le> y"
  shows "getDatesInCurrentYear y = map (date_text y) (calendar_days y)"
proof -
  have *: "map (\<lambda>day. dateStr y month day) [1..<Suc (daysInMonth y month)]
      = map (date_text y) (map (\<lambda>d. (month, d)) [1..<Suc (month_length y month)])"
    if "month \<in> set [1..<13]" for month
  proof -
    have "dateStr y month day = date_text y (month, day)"
      if "day \<in> set [1..<Suc (daysInMonth y month)]" for day
      using that \<open>month \<in> set [1..<13]\<close> daysInMonth_le [of y month]
      by (intro dateStr_text) auto
    then have "map (\<lambda>day. dateStr y month day) [1..<Suc (daysInMonth y month)]
      = map (\<lambda>d. date_text y (month, d)) [1..<Suc (daysInMonth y month)]"
      by (intro map_cong [OF refl])
    then show ?thesis using assms by (simp only: daysInMonth_month_length map_map comp_def)
  qed
  have "map (\<lambda>month. map (\<lambda>day. dateStr y month day) [1..<Suc (daysInMonth y month)]) [1..<13]
      = map (\<lambda>month. map (date_text y) (map (\<lambda>d. (month, d)) [1..<Suc (month_length y month)])) [1..<13]"
    by (rule map_cong [OF refl]) (rule *)
  then show ?thesis
    unfolding getDatesInCurrentYear_def calendar_days_def map_concat
    by (simp only: map_map comp_def)
qed

lemma date_text_iso: "1000 \<le> y \<Longrightarrow> y \<le> 9999 \<Longrightarrow> date_text y md = iso_date y md"
  by (simp add: date_text_def iso_date_def nat_toString4)

text \<open>
  C4. For every year from 1 on, \<^verbatim>\<open>getDatesInCurrentYear\<close> yields the days of the
  Gregorian calendar from January 1 to December 31, each once and in calendar order,
  each written as the year, a hyphen, two digits for the month, a hyphen and two digits
  for the day; the strings ascend strictly; there are 366 of them in a leap year and
  365 otherwise. For a year of four digits each date is the ten characters
  \<open>YYYY-MM-DD\<close>.
\<close>

theorem year_enumeration:
  assumes "1 \<le> y"
  shows "getDatesInCurrentYear y = map (date_text y) (calendar_days y) \<and>
    set (getDatesInCurrentYear y) =
      {date_text y (m, d) | m d. 1 \<le> m \<and> m \<le> 12 \<and> 1 \<le> d \<and> d \<le> month_length y m} \<and>
    sorted_wrt (<) (getDatesInCurrentYear y) \<and>
    length (getDatesInCurrentYear y) =
      (if y mod 400 = 0 \<or> (y mod 4 = 0 \<and> y mod 100 \<noteq> 0) then 366 else 365) \<and>
    hd (getDatesInCurrentYear y) = date_text y (1, 1) \<and>
    last (getDatesInCurrentYear y) = date_text y (12, 31) \<and>
    (1000 \<le> y \<and> y \<le> 9999 \<longrightarrow> (\<forall>md. date_text y md = iso_date y md))"
proof -
  have eq: "getDatesInCurrentYear y = map (date_text y) (calendar_days y)"
    using assms by (rule dates_text)
  have "set (getDatesInCurrentYear y) =
      {date_text y (m, d) | m d. 1 \<le> m \<and> m \<le> 12 \<and> 1 \<le> d \<and> d \<le> month_length y m}"
    unfolding eq set_map set_calendar_days by auto
  moreover have "sorted_wrt (<) (getDatesInCurrentYear y)"
    by (rule sorted_dates_all)
  moreover have "length (getDatesInCurrentYear y) =
      (if y mod 400 = 0 \<or> (y mod 4 = 0 \<and> y mod 100 \<noteq> 0) then 366 else 365)"
    unfolding eq length_map by (rule length_calendar_days)
  moreover have "hd (getDatesInCurrentYear y) = date_text y (1, 1)"
    unfolding eq by (simp add: hd_map calendar_days_not_Nil hd_calendar_days)
  moreover have "last (getDatesInCurrentYear y) = date_text y (12, 31)"
    unfolding eq by (simp add: last_map calendar_days_not_Nil last_calendar_days)
  moreover have "1000 \<le> y \<and> y \<le> 9999 \<longrightarrow> (\<forall>md. date_text y md = iso_date y md)"
    by (simp add: date_text_iso)
  ultimately show ?thesis using eq by simp
qed

text \<open>The years 2024 and 2023.\<close>

theorem year_enumeration_witness:
  "length (getDatesInCurrentYear 2024) = 366 \<and>
   hd (getDatesInCurrentYear 2024) = ''2024-01-01'' \<and>
   last (getDatesInCurrentYear 2024) = ''2024-12-31'' \<and>
   sorted_wrt (<) (getDatesInCurrentYear 2024) \<and>
   length (getDatesInCurrentYear 2023) = 365 \<and>
   hd (getDatesInCurrentYear 2023) = ''2023-01-01'' \<and>
   last (getDatesInCurrentYear 2023) = ''2023-12-31''"
proof -
  have a: "(1::nat) \<le> 2024" "(1::nat) \<le> 2023"
    by simp_all
  note leap = year_enumeration [OF a(1), THEN conjunct2, THEN conjunct2]
  note common = year_enumeration [OF a(2), THEN conjunct2, THEN conjunct2]
  show ?thesis using leap common by (simp add: iso_date_def digit_def)
qed

section \<open>The single-date lookup\<close>

lemma panchangCache_called [simp]: "panchangCache (called c st) = panchangCache st"
  by (simp add: called_def)

lemma lib_calls_called [simp]: "lib_calls (called c st) = lib_calls st @ [c]"
  by (simp add: called_def)

lemma gpd_hit:
  "map_of (panchangCache st) (getCacheKey h d la lo) = Some r \<Longrightarrow>
   getPanchangData h d la lo st = (Inr r, st)"
  by (simp add: getPanchangData_def)

lemma gpd_calendar_throws:
  "map_of (panchangCache st) (getCacheKey h d la lo) = None \<Longrightarrow>
   calendar h (ToString h d) (ToString h la) (ToString h lo) = Inl e \<Longrightarrow>
   getPanchangData h d la lo st =
     (Inl (failed e), called (Calendar (ToString h d) (ToString h la) (ToString h lo)) st)"
  by (simp add: getPanchangData_def Let_def)

lemma gpd_sunTimer_throws:
  "map_of (panchangCache st) (getCacheKey h d la lo) = None \<Longrightarrow>
   calendar h (ToString h d) (ToString h la) (ToString h lo) = Inr result \<Longrightarrow>
   sunTimer h (ToString h d) (ToString h la) (ToString h lo) = Inl e \<Longrightarrow>
   getPanchangData h d la lo st =
     (Inl (failed e), called (SunTimer (ToString h d) (ToString h la) (ToString h lo))
        (called (Calendar (ToString h d) (ToString h la) (ToString h lo)) st))"
  by (simp add: getPanchangData_def Let_def)

lemma gpd_computes:
  "map_of (panchangCache st) (getCacheKey h d la lo) = None \<Longrightarrow>
   calendar h (ToString h d) (ToString h la) (ToString h lo) = Inr result \<Longrightarrow>
   sunTimer h (ToString h d) (ToString h la) (ToString h lo) = Inr sun \<Longrightarrow>
   getPanchangData h d la lo st =
     (Inr (panchangData_of d la lo result sun),
      (called (SunTimer (ToString h d) (ToString h la) (ToString h lo))
        (called (Calendar (ToString h d) (ToString h la) (ToString h lo)) st))
      \<lparr>panchangCache := AList.update (getCacheKey h d la lo) (panchangData_of d la lo result sun)
          (panchangCache st)\<rparr>)"
  by (simp add: getPanchangData_def Let_def)

text \<open>
  C1. \<^verbatim>\<open>getPanchangData\<close> on a key that is in \<^verbatim>\<open>panchangCache\<close> returns the
  stored record and leaves the state as it is, library calls included. On a key that is not
  there, when both library calls return, it returns the new record, stores it under the
  key and has made the two calls; the same lookup again returns the same record and
  changes nothing. When a library call throws, the error goes to the caller, the cache
  is as before, and the same lookup again calls the library again.
\<close>

theorem get_or_compute:
  fixes h :: host and d la lo :: jsval and st :: server
  defines "key \<equiv> getCacheKey h d la lo"
    and "cal \<equiv> Calendar (ToString h d) (ToString h la) (ToString h lo)"
    and "sun \<equiv> SunTimer (ToString h d) (ToString h la) (ToString h lo)"
  shows
  "(map_of (panchangCache st) key = Some r \<longrightarrow>
      getPanchangData h d la lo st = (Inr r, st)) \<and>
   (map_of (panchangCache st) key = None \<and>
    calendar h (ToString h d) (ToString h la) (ToString h lo) = Inr result \<and>
    sunTimer h (ToString h d) (ToString h la) (ToString h lo) = Inr s \<longrightarrow>
      (\<exists>st'. getPanchangData h d la lo st = (Inr (panchangData_of d la lo result s), st') \<and>
         map_of (panchangCache st') =
           (map_of (panchangCache st))(key \<mapsto> panchangData_of d la lo result s) \<and>
         lib_calls st' = lib_calls st @ [cal, sun] \<and>
         getPanchangData h d la lo st' = (Inr (panchangData_of d la lo result s), st'))) \<and>
   (map_of (panchangCache st) key = None \<and>
    (calendar h (ToString h d) (ToString h la) (ToString h lo) = Inl e \<or>
     calendar h (ToString h d) (ToString h la) (ToString h lo) = Inr result \<and>
     sunTimer h (ToString h d) (ToString h la) (ToString h lo) = Inl e) \<longrightarrow>
      (\<exists>st' st''. getPanchangData h d la lo st = (Inl (failed e), st') \<and>
         panchangCache st' = panchangCache st \<and>
         getPanchangData h d la lo st' = (Inl (failed e), st'') \<and>
         (\<exists>more. lib_calls st'' = lib_calls st' @ cal # more) \<and>
         panchangCache st'' = panchangCache st))"
proof (intro conjI impI)
  assume "map_of (panchangCache st) key = Some r"
  then show "getPanchangData h d la lo st = (Inr r, st)"
    unfolding key_def by (rule gpd_hit)
next
  assume a: "map_of (panchangCache st) key = None \<and>
    calendar h (ToString h d) (ToString h la) (ToString h lo) = Inr result \<and>
    sunTimer h (ToString h d) (ToString h la) (ToString h lo) = Inr s"
  let ?r = "panchangData_of d la lo result s"
  let ?st = "(called sun (called cal st))\<lparr>panchangCache := AList.update key ?r (panchangCache st)\<rparr>"
  have 1: "getPanchangData h d la lo st = (Inr ?r, ?st)"
    using a unfolding key_def cal_def sun_def by (simp add: gpd_computes)
  have 2: "map_of (panchangCache ?st) = (map_of (panchangCache st))(key \<mapsto> ?r)"
    by (simp add: update_conv')
  have 3: "lib_calls ?st = lib_calls st @ [cal, sun]"
    by simp
  have "map_of (panchangCache ?st) key = Some ?r"
    by (simp add: update_conv')
  then have 4: "getPanchangData h d la lo ?st = (Inr ?r, ?st)"
    unfolding key_def by (rule gpd_hit)
  from 1 2 3 4 show "\<exists>st'. getPanchangData h d la lo st = (Inr ?r, st') \<and>
         map_of (panchangCache st') = (map_of (panchangCache st))(key \<mapsto> ?r) \<and>
         lib_calls st' = lib_calls st @ [cal, sun] \<and>
         getPanchangData h d la lo st' = (Inr ?r, st')"
    by blast
next
  assume a: "map_of (panchangCache st) key = None \<and>
    (calendar h (ToString h d) (ToString h la) (ToString h lo) = Inl e \<or>
     calendar h (ToString h d) (ToString h la) (ToString h lo) = Inr result \<and>
     sunTimer h (ToString h d) (ToString h la) (ToString h lo) = Inl e)"
  then have miss: "map_of (panchangCache st) (getCacheKey h d la lo) = None"
    by (simp add: key_def)
  from a consider
    (c) "calendar h (ToString h d) (ToString h la) (ToString h lo) = Inl e"
    | (s) "calendar h (ToString h d) (ToString h la) (ToString h lo) = Inr result"
      "sunTimer h (ToString h d) (ToString h la) (ToString h lo) = Inl e"
    by blast
  then show "\<exists>st' st''. getPanchangData h d la lo st = (Inl (failed e), st') \<and>
         panchangCache st' = panchangCache st \<and>
         getPanchangData h d la lo st' = (Inl (failed e), st'') \<and>
         (\<exists>more. lib_calls st'' = lib_calls st' @ cal # more) \<and>
         panchangCache st'' = panchangCache st"
  proof cases
    case c
    let ?st = "called cal st"
    have "getPanchangData h d la lo st = (Inl (failed e), ?st)"
      using miss c unfolding cal_def by (rule gpd_calendar_throws)
    moreover have "getPanchangData h d la lo ?st = (Inl (failed e), called cal ?st)"
      using miss c unfolding cal_def by (simp add: gpd_calendar_throws)
    ultimately show ?thesis by (intro exI [of _ ?st] exI [of _ "called cal ?st"]) simp
  next
    case s
    let ?st = "called sun (called cal st)"
    have "getPanchangData h d la lo st = (Inl (failed e), ?st)"
      using miss s unfolding cal_def sun_def by (rule gpd_sunTimer_throws)
    moreover have "getPanchangData h d la lo ?st = (Inl (failed e), called sun (called cal ?st))"
      using miss s unfolding cal_def sun_def by (simp add: gpd_sunTimer_throws)
    ultimately show ?thesis
      by (intro exI [of _ ?st] exI [of _ "called sun (called cal ?st)"]) simp
  qed
qed

lemmas demo_defs = demo_host_def demo_calendar_def demo_date_def demo_lat_def demo_lng_def
  demo_record_def init_server_def getCacheKey_def panchangData_of_def

text \<open>A hit, a miss that computes, and a date that the library rejects.\<close>

theorem get_or_compute_witness:
  "getPanchangData demo_host demo_date demo_lat demo_lng
     (init_server\<lparr>panchangCache := [(''2025-10-01_12.9716_77.5946'', demo_record)]\<rparr>) =
     (Inr demo_record,
      init_server\<lparr>panchangCache := [(''2025-10-01_12.9716_77.5946'', demo_record)]\<rparr>) \<and>
   (\<exists>st'. getPanchangData demo_host demo_date demo_lat demo_lng init_server =
            (Inr demo_record, st') \<and>
          lib_calls st' = [Calendar ''2025-10-01'' ''12.9716'' ''77.5946'',
                           SunTimer ''2025-10-01'' ''12.9716'' ''77.5946''] \<and>
          getPanchangData demo_host demo_date demo_lat demo_lng st' = (Inr demo_record, st')) \<and>
   (\<exists>st' st''. getPanchangData demo_host (JStr ''bad'') demo_lat demo_lng init_server =
            (Inl (Error ''Failed to calculate panchang: Invalid time value''), st') \<and>
          panchangCache st' = [] \<and>
          getPanchangData demo_host (JStr ''bad'') demo_lat demo_lng st' =
            (Inl (Error ''Failed to calculate panchang: Invalid time value''), st'') \<and>
          (\<exists>more. lib_calls st'' =
             lib_calls st' @ Calendar ''bad'' ''12.9716'' ''77.5946'' # more))"
proof (intro conjI)
  let ?hit = "init_server\<lparr>panchangCache := [(''2025-10-01_12.9716_77.5946'', demo_record)]\<rparr>"
  show "getPanchangData demo_host demo_date demo_lat demo_lng ?hit = (Inr demo_record, ?hit)"
    using get_or_compute [where st = ?hit and h = demo_host and d = demo_date
        and la = demo_lat and lo = demo_lng and r = demo_record]
    by (simp add: demo_defs)
next
  show "\<exists>st'. getPanchangData demo_host demo_date demo_lat demo_lng init_server =
            (Inr demo_record, st') \<and>
          lib_calls st' = [Calendar ''2025-10-01'' ''12.9716'' ''77.5946'',
                           SunTimer ''2025-10-01'' ''12.9716'' ''77.5946''] \<and>
          getPanchangData demo_host demo_date demo_lat demo_lng st' = (Inr demo_record, st')"
    using get_or_compute [where st = init_server and h = demo_host and d = demo_date
        and la = demo_lat and lo = demo_lng and result =
        "\<lparr>Tithi = ''Dashami'', Paksha = ''Shukla'', Nakshatra = ''Rohini'', Yoga = ''Siddhi'',
          Karna = ''Bava'', Masa = ''Kartika'', Raasi = ''Libra'', Ritu = ''Autumn''\<rparr>" and s =
        "\<lparr>sunRise = ''06:10'', sunSet = ''18:05''\<rparr>"]
    apply (simp add: demo_defs)
    apply (elim exE conjE, intro exI conjI, assumption+)
    done
next
  show "\<exists>st' st''. getPanchangData demo_host (JStr ''bad'') demo_lat demo_lng init_server =
            (Inl (Error ''Failed to calculate panchang: Invalid time value''), st') \<and>
          panchangCache st' = [] \<and>
          getPanchangData demo_host (JStr ''bad'') demo_lat demo_lng st' =
            (Inl (Error ''Failed to calculate panchang: Invalid time value''), st'') \<and>
          (\<exists>more. lib_calls st'' =
             lib_calls st' @ Calendar ''bad'' ''12.9716'' ''77.5946'' # more)"
    using get_or_compute [where st = init_server and h = demo_host and d = "JStr ''bad''"
        and la = demo_lat and lo = demo_lng and e = "Error ''Invalid time value''"]
    apply (simp add: demo_defs failed_def)
    apply (elim exE conjE, intro exI conjI, assumption+)
    done
qed

section \<open>Cache keys\<close>

lemma split_at_sep:
  "a \<notin> set xs \<Longrightarrow> a \<notin> set xs' \<Longrightarrow> xs @ a # ys = xs' @ a # ys' \<longleftrightarrow> xs = xs' \<and> ys = ys'"
proof (induction xs arbitrary: xs')
  case Nil
  then show ?case by (cases xs') auto
next
  case (Cons x xs)
  then show ?case by (cases xs') auto
qed

lemma gpd_cache_other:
  "k \<noteq> getCacheKey h d la lo \<Longrightarrow>
   map_of (panchangCache (snd (getPanchangData h d la lo st))) k = map_of (panchangCache st) k"
  by (simp add: getPanchangData_def Let_def update_conv' split: option.splits sum.splits)

text \<open>
  C6, as amended. The key is the string \<^verbatim>\<open>date_lat_lng\<close> and keys compare as strings,
  with no numeric reading of the coordinates. For a fixed date and latitude strings
  without an underscore, two lookups have the same key exactly when their latitude
  strings and their longitude strings are equal; when they differ, a lookup at one
  coordinate leaves the entry of the other as it was.
\<close>

theorem cache_key_exact:
  assumes "CHR ''_'' \<notin> set la" and "CHR ''_'' \<notin> set la'"
  shows "(getCacheKey h d (JStr la) (JStr lo) = getCacheKey h d (JStr la') (JStr lo') \<longleftrightarrow>
            la = la' \<and> lo = lo') \<and>
         (la \<noteq> la' \<or> lo \<noteq> lo' \<longrightarrow>
            map_of (panchangCache (snd (getPanchangData h d (JStr la) (JStr lo) st)))
              (getCacheKey h d (JStr la') (JStr lo')) =
            map_of (panchangCache st) (getCacheKey h d (JStr la') (JStr lo')))"
proof -
  have key: "getCacheKey h d (JStr la) (JStr lo) = getCacheKey h d (JStr la') (JStr lo') \<longleftrightarrow>
            la = la' \<and> lo = lo'"
    using assms by (simp add: getCacheKey_def split_at_sep)
  then show ?thesis using gpd_cache_other [of "getCacheKey h d (JStr la') (JStr lo')" h d "JStr la" "JStr lo" st]
    by metis
qed

text \<open>The latitudes 12.9716 and 12.97160 have different keys and entries.\<close>

theorem cache_key_exact_witness:
  "getCacheKey demo_host demo_date (JStr ''12.9716'') (JStr ''77.5946'') \<noteq>
   getCacheKey demo_host demo_date (JStr ''12.97160'') (JStr ''77.5946'') \<and>
   map_of (panchangCache (snd (getPanchangData demo_host demo_date (JStr ''12.9716'')
      (JStr ''77.5946'') init_server))) (getCacheKey demo_host demo_date (JStr ''12.97160'') (JStr ''77.5946''))
   = None"
  using cache_key_exact [of "''12.9716''" "''12.97160''" demo_host demo_date "''77.5946''" "''77.5946''" init_server]
  by (simp add: init_server_def)

text \<open>
  C6 as stated fails where a coordinate string holds an underscore: the latitudes
  \<open>''1_2''\<close> and \<open>''1''\<close> differ, the two lookups have one key, and the second
  lookup returns the record of the first.
\<close>

theorem cache_key_counterexample:
  "JStr ''1_2'' \<noteq> JStr ''1'' \<and>
   getCacheKey demo_host demo_date (JStr ''1_2'') (JStr ''3'') =
   getCacheKey demo_host demo_date (JStr ''1'') (JStr ''2_3'') \<and>
   getPanchangData demo_host demo_date (JStr ''1'') (JStr ''2_3'')
     (snd (getPanchangData demo_host demo_date (JStr ''1_2'') (JStr ''3'') init_server)) =
   getPanchangData demo_host demo_date (JStr ''1_2'') (JStr ''3'')
     (snd (getPanchangData demo_host demo_date (JStr ''1_2'') (JStr ''3'') init_server))"
  by (simp add: getCacheKey_def getPanchangData_def demo_defs Let_def called_def)

section \<open>Clearing the caches\<close>

text \<open>
  C7. After \<^verbatim>\<open>DELETE /cache\<close>, \<^verbatim>\<open>GET /cache-stats\<close> reports both sizes as zero, and
  a lookup of any key returns what a lookup on a server that has cached nothing returns,
  and calls the library.
\<close>

theorem clear_then_recompute:
  "fst (get_cache_stats (snd (delete_cache st))) = (200, StatsBody 0 0 ''Cache statistics'') \<and>
   fst (getPanchangData h d la lo (snd (delete_cache st))) =
     fst (getPanchangData h d la lo init_server) \<and>
   (\<exists>more. lib_calls (snd (getPanchangData h d la lo (snd (delete_cache st)))) =
      lib_calls st @ Calendar (ToString h d) (ToString h la) (ToString h lo) # more)"
  by (simp add: get_cache_stats_def delete_cache_def getPanchangData_def Let_def init_server_def
      called_def split: sum.splits)

text \<open>A record cached before the clear is computed again after it.\<close>

theorem clear_then_recompute_witness:
  "fst (get_cache_stats (snd (delete_cache
     (init_server\<lparr>panchangCache := [(''2025-10-01_12.9716_77.5946'', demo_record)]\<rparr>)))) =
     (200, StatsBody 0 0 ''Cache statistics'') \<and>
   (\<exists>more. lib_calls (snd (getPanchangData demo_host demo_date demo_lat demo_lng (snd (delete_cache
     (init_server\<lparr>panchangCache := [(''2025-10-01_12.9716_77.5946'', demo_record)]\<rparr>))))) =
     Calendar ''2025-10-01'' ''12.9716'' ''77.5946'' # more)"
  using clear_then_recompute [of
      "init_server\<lparr>panchangCache := [(''2025-10-01_12.9716_77.5946'', demo_record)]\<rparr>"
      demo_host demo_date demo_lat demo_lng]
  by (simp add: init_server_def demo_host_def demo_date_def demo_lat_def demo_lng_def)

section \<open>The missing-parameter check of the warm-up\<close>

text \<open>
  C10. \<^verbatim>\<open>POST /cache-year\<close> tests \<^verbatim>\<open>!lat || !lng\<close>: a body whose \<^verbatim>\<open>lat\<close> or
  \<^verbatim>\<open>lng\<close> is the number 0 is answered with status 400 and
  \<^verbatim>\<open>{error: "Missing lat or lng"}\<close>, and nothing is started: the state is as before.
\<close>

theorem missing_check_rejects_zero:
  "lat = JNum 0 \<or> lng = JNum 0 \<Longrightarrow>
   post_cache_year h currentYear lat lng st = ((400, ErrorBody ''Missing lat or lng''), st)"
  by (auto simp: post_cache_year_def)

text \<open>A point on the equator.\<close>

theorem missing_check_rejects_zero_witness:
  "post_cache_year demo_host 2025 (JNum 0) (JNum 77.5946) init_server =
     ((400, ErrorBody ''Missing lat or lng''), init_server)"
  using missing_check_rejects_zero [of "JNum 0" "JNum 77.5946" demo_host 2025 init_server]
  by simp

section \<open>Lookups in a loop\<close>

lemma gpd_fst:
  "fst (getPanchangData h d la lo st) =
     (case map_of (panchangCache st) (getCacheKey h d la lo) of
        Some r \<Rightarrow> Inr r | None \<Rightarrow> computed h d la lo)"
  by (simp add: computed_def getPanchangData_def Let_def init_server_def
      split: option.splits sum.splits)

lemma key_inj_date [simp]:
  "getCacheKey h (JStr d) la lo = getCacheKey h (JStr d') la lo \<longleftrightarrow> d = d'"
  by (simp add: getCacheKey_def)

lemma gpd_untouched [simp]:
  "tithiSearchCache (snd (getPanchangData h d la lo st)) = tithiSearchCache st"
  "immediates (snd (getPanchangData h d la lo st)) = immediates st"
  "console (snd (getPanchangData h d la lo st)) = console st"
  by (simp_all add: getPanchangData_def Let_def called_def split: option.splits sum.splits)

lemma console_error_fields [simp]:
  "panchangCache (console_error l st) = panchangCache st"
  "tithiSearchCache (console_error l st) = tithiSearchCache st"
  "immediates (console_error l st) = immediates st"
  "lib_calls (console_error l st) = lib_calls st"
  "console (console_error l st) = console st @ [l]"
  by (simp_all add: console_error_def)

lemma gpd_console_error:
  "getPanchangData h d la lo (console_error l st) =
     (fst (getPanchangData h d la lo st), console_error l (snd (getPanchangData h d la lo st)))"
  by (simp add: getPanchangData_def Let_def called_def console_error_def split: option.splits sum.splits)

lemma lookup_console_error [simp]: "lookup h la lo (console_error l st) d = lookup h la lo st d"
  by (simp add: lookup_def gpd_console_error)

text \<open>A lookup does not change what any lookup at the same coordinate returns.\<close>

lemma lookup_stable:
  "lookup h la lo (snd (getPanchangData h (JStr d) la lo st)) d' = lookup h la lo st d'"
proof (cases "d' = d")
  case True
  show ?thesis unfolding True lookup_def gpd_fst
    by (simp add: computed_def getPanchangData_def Let_def init_server_def update_conv'
        split: option.splits sum.splits)
next
  case False
  then have "getCacheKey h (JStr d') la lo \<noteq> getCacheKey h (JStr d) la lo" by simp
  from gpd_cache_other [OF this, of st]
  show ?thesis unfolding lookup_def gpd_fst by simp
qed

section \<open>The search\<close>

lemma toLowerCase_Nil [simp]:
  "toLowerCase [] = []" "toLowerCase s = [] \<longleftrightarrow> s = []" "[] = toLowerCase s \<longleftrightarrow> s = []"
  by (auto simp: toLowerCase_def)

lemma search_date_step:
  assumes "s \<noteq> []"
  shows "\<exists>st'. search_date h (JStr s) la lo d (ms, st) = (ms @ search_entries h s la lo st d, st') \<and>
     tithiSearchCache st' = tithiSearchCache st \<and>
     (\<forall>d'. lookup h la lo st' d' = lookup h la lo st d')"
proof (cases "getPanchangData h (JStr d) la lo st")
  case (Pair v st1)
  then have v: "lookup h la lo st d = v" and st1: "st1 = snd (getPanchangData h (JStr d) la lo st)"
    by (simp_all add: lookup_def)
  have stable: "lookup h la lo st1 d' = lookup h la lo st d'" for d'
    unfolding st1 by (rule lookup_stable)
  have ts: "tithiSearchCache st1 = tithiSearchCache st"
    unfolding st1 by simp
  show ?thesis
  proof (cases v)
    case (Inl e)
    with Pair v stable ts show ?thesis
      by (simp add: search_date_def search_entries_def)
  next
    case (Inr r)
    with Pair v stable ts assms show ?thesis
      by (auto simp: search_date_def search_entries_def)
  qed
qed

lemma search_fold:
  assumes "s \<noteq> []"
  shows "\<exists>st'. fold (search_date h (JStr s) la lo) ds (ms, st) =
           (ms @ concat (map (search_entries h s la lo st) ds), st') \<and>
         tithiSearchCache st' = tithiSearchCache st"
proof (induction ds arbitrary: ms st)
  case Nil
  then show ?case by simp
next
  case (Cons d ds)
  obtain st1 where 1: "search_date h (JStr s) la lo d (ms, st) = (ms @ search_entries h s la lo st d, st1)"
    and 2: "tithiSearchCache st1 = tithiSearchCache st"
    and 3: "\<And>d'. lookup h la lo st1 d' = lookup h la lo st d'"
    using search_date_step [OF assms, of h la lo d ms st] by blast
  have same: "search_entries h s la lo st1 = search_entries h s la lo st"
    by (rule ext) (simp add: search_entries_def 3)
  from Cons.IH [of "ms @ search_entries h s la lo st d" st1]
  show ?case by (simp add: 1 2 same)
qed

lemma search_date_keeps:
  "tithiSearchCache (snd (search_date h t la lo d acc)) = tithiSearchCache (snd acc)"
proof (cases acc)
  case (Pair ms st)
  obtain v st1 where g: "getPanchangData h (JStr d) la lo st = (v, st1)"
    by force
  then have "tithiSearchCache st1 = tithiSearchCache st"
    using gpd_untouched(1) [of h "JStr d" la lo st] by simp
  then show ?thesis
    by (simp add: search_date_def Pair g split: sum.splits jsval.splits)
qed

lemma search_fold_keeps:
  "tithiSearchCache (snd (fold (search_date h t la lo) ds acc)) = tithiSearchCache (snd acc)"
  by (induction ds arbitrary: acc) (simp_all add: search_date_keeps)

lemma search_miss:
  assumes "truthy t" "truthy la" "truthy lo"
    and "map_of (tithiSearchCache st) (searchKey h t la lo) = None"
  shows "\<exists>ms st1. fold (search_date h t la lo) (getDatesInCurrentYear y) ([], st) = (ms, st1) \<and>
     tithiSearchCache st1 = tithiSearchCache st \<and>
     get_search_tithi h y t la lo st =
       ((200, SearchBody \<lparr>r_tithi = t, r_location = ToString h la @ '', '' @ ToString h lo,
           totalMatches = length ms, r_dates = ms\<rparr>),
        st1\<lparr>tithiSearchCache := AList.update (searchKey h t la lo)
           \<lparr>r_tithi = t, r_location = ToString h la @ '', '' @ ToString h lo,
            totalMatches = length ms, r_dates = ms\<rparr> (tithiSearchCache st)\<rparr>)"
proof -
  obtain ms st1 where f: "fold (search_date h t la lo) (getDatesInCurrentYear y) ([], st) = (ms, st1)"
    by force
  have k: "tithiSearchCache st1 = tithiSearchCache st"
    using search_fold_keeps [of h t la lo "getDatesInCurrentYear y" "([], st)"] f by simp
  show ?thesis
    using assms f k by (simp add: get_search_tithi_def Let_def)
qed

lemma searchKey_inj_term:
  "searchKey h (JStr s) la lo = searchKey h (JStr s') la lo \<longleftrightarrow> s = s'"
  by (simp add: searchKey_def)

lemma search_hit:
  assumes "truthy t" "truthy la" "truthy lo"
    and "map_of (tithiSearchCache st) (searchKey h t la lo) = Some cached"
  shows "get_search_tithi h y t la lo st = ((200, SearchBody cached), st)"
  using assms by (simp add: get_search_tithi_def Let_def)

lemma search_keys:
  assumes "truthy t" "truthy la" "truthy lo"
  shows "map fst (tithiSearchCache (snd (get_search_tithi h y t la lo st))) =
     (if searchKey h t la lo \<in> set (map fst (tithiSearchCache st))
      then map fst (tithiSearchCache st)
      else map fst (tithiSearchCache st) @ [searchKey h t la lo])"
proof (cases "map_of (tithiSearchCache st) (searchKey h t la lo)")
  case None
  then have "searchKey h t la lo \<notin> set (map fst (tithiSearchCache st))"
    by (simp add: map_of_eq_None_iff)
  moreover from search_miss [OF assms None, of y]
  have "map fst (tithiSearchCache (snd (get_search_tithi h y t la lo st))) =
      map fst (AList.update (searchKey h t la lo)
           \<lparr>r_tithi = t, r_location = ToString h la @ '', '' @ ToString h lo,
            totalMatches = length (fst (fold (search_date h t la lo) (getDatesInCurrentYear y) ([], st))),
            r_dates = fst (fold (search_date h t la lo) (getDatesInCurrentYear y) ([], st))\<rparr>
           (tithiSearchCache st))"
    by auto
  ultimately show ?thesis by (simp add: update_keys)
next
  case (Some cached)
  then have "searchKey h t la lo \<in> set (map fst (tithiSearchCache st))"
    by (metis map_of_eq_None_iff option.distinct(1) set_map)
  then show ?thesis using search_hit [OF assms Some, of y] by simp
qed

lemma two_digit_15: "d < 100 \<Longrightarrow> [digit (d div 10), digit (d mod 10)] = ''15'' \<longleftrightarrow> d = 15"
proof -
  assume "d < 100"
  then have a: "d div 10 < 10" "d mod 10 < 10" by auto
  have "''15'' = [digit 1, digit 5]" by (simp add: digit_def)
  then have "[digit (d div 10), digit (d mod 10)] = ''15'' \<longleftrightarrow> d div 10 = 1 \<and> d mod 10 = 5"
    using a by (simp add: digit_inj)
  also have "\<dots> \<longleftrightarrow> d = 15" by presburger
  finally show ?thesis .
qed

lemma filter_eq_upt: "a \<le> k \<Longrightarrow> k < b \<Longrightarrow> filter (\<lambda>d. d = k) [a..<b] = [k]"
proof (induction b)
  case 0
  then show ?case by simp
next
  case (Suc b)
  show ?case
  proof (cases "k = b")
    case True
    have "filter (\<lambda>d. d = b) [a..<b] = []" by (simp add: filter_empty_conv)
    then show ?thesis using Suc.prems True by simp
  next
    case False
    then show ?thesis using Suc by simp
  qed
qed

lemma filter_15:
  "filter (\<lambda>md. snd md = 15) (calendar_days y) = map (\<lambda>m. (m, 15)) [1..<13]"
proof -
  have "filter (\<lambda>md. snd md = 15) (map (\<lambda>d. (m, d)) [1..<Suc (month_length y m)]) = [(m, 15)]" for m
  proof -
    have "15 < Suc (month_length y m)" by (simp add: month_length_def)
    then have "filter (\<lambda>d. d = 15) [1..<Suc (month_length y m)] = [15]"
      by (intro filter_eq_upt) simp_all
    then show ?thesis by (simp add: filter_map comp_def del: upt_Suc)
  qed
  then show ?thesis
    unfolding calendar_days_def by (induction "[1..<13::nat]") (simp_all add: filter_concat comp_def del: upt_Suc)
qed

lemma lower_purnima: "toLowerCase ''Purnima'' = ''purnima''" "toLowerCase ''purnima'' = ''purnima''"
  "toLowerCase ''Dashami'' = ''dashami''"
  by code_simp+

lemma demo_entry:
  assumes "snd md < 100"
  shows "(case fst (getPanchangData demo_host (JStr (iso_date y md)) demo_lat demo_lng init_server) of
         Inr r \<Rightarrow> if toLowerCase (tithi r) = toLowerCase ''purnima'' then [matching_of r] else []
       | Inl e \<Rightarrow> []) = (if snd md = 15 then [demo_match (iso_date y md)] else [])"
proof -
  have "drop (length (iso_date y md) - 2) (iso_date y md) = [digit (snd md div 10), digit (snd md mod 10)]"
    by (simp add: iso_date_def)
  then have "(drop (length (iso_date y md) - 2) (iso_date y md) = ''15'') = (snd md = 15)"
    using two_digit_15 [OF assms] by simp
  moreover have "iso_date y md \<noteq> ''bad''" by (simp add: iso_date_def)
  ultimately show ?thesis
    by (simp add: getPanchangData_def demo_host_def demo_calendar_def init_server_def Let_def
        panchangData_of_def matching_of_def demo_match_def lower_purnima called_def)
qed

lemma demo_found:
  "concat (map (\<lambda>d.
       case fst (getPanchangData demo_host (JStr d) demo_lat demo_lng init_server) of
         Inr r \<Rightarrow> if toLowerCase (tithi r) = toLowerCase ''purnima'' then [matching_of r] else []
       | Inl e \<Rightarrow> []) (getDatesInCurrentYear 2024)) =
   map (\<lambda>m. demo_match (iso_date 2024 (m, 15))) [1..<13]"
proof -
  have d: "getDatesInCurrentYear 2024 = map (iso_date 2024) (calendar_days 2024)"
    by (rule dates_eq) simp_all
  have "snd md < 100" if "md \<in> set (calendar_days 2024)" for md
    using that month_length_le [of 2024 "fst md"] by (auto simp: set_calendar_days)
  then have "map (\<lambda>d.
       case fst (getPanchangData demo_host (JStr d) demo_lat demo_lng init_server) of
         Inr r \<Rightarrow> if toLowerCase (tithi r) = toLowerCase ''purnima'' then [matching_of r] else []
       | Inl e \<Rightarrow> []) (getDatesInCurrentYear 2024) =
     map (\<lambda>md. if snd md = 15 then [demo_match (iso_date 2024 md)] else []) (calendar_days 2024)"
    unfolding d map_map comp_def by (intro map_cong [OF refl] demo_entry)
  moreover have "concat (map (\<lambda>md. if P md then [f md] else []) xs) = map f (filter P xs)"
    for P and f :: "nat \<times> nat \<Rightarrow> matching_date" and xs
    by (induction xs) simp_all
  ultimately show ?thesis
    by (simp add: filter_15 comp_def del: upt_Suc)
qed

text \<open>
  C5. A search for a string \<open>s\<close> whose key is not in \<^verbatim>\<open>tithiSearchCache\<close> goes through
  the dates of the current year in their order. A date contributes one entry when its
  lookup (from \<^verbatim>\<open>panchangCache\<close> or computed) gives a record whose tithi equals \<open>s\<close>
  without regard to case, and none when it gives another record or throws. The answer
  holds the term, the location, the entries in that order and their number, and it is
  stored in \<^verbatim>\<open>tithiSearchCache\<close> under the search key.
\<close>

theorem search_scan:
  fixes h :: host and s :: string and lat lng :: jsval and st :: server and currentYear :: nat
  defines "found \<equiv> concat (map (\<lambda>d.
       case fst (getPanchangData h (JStr d) lat lng st) of
         Inr r \<Rightarrow> if toLowerCase (tithi r) = toLowerCase s then [matching_of r] else []
       | Inl e \<Rightarrow> []) (getDatesInCurrentYear currentYear))"
  defines "result \<equiv> \<lparr>r_tithi = JStr s, r_location = ToString h lat @ '', '' @ ToString h lng,
       totalMatches = length found, r_dates = found\<rparr>"
  assumes "truthy lat" and "truthy lng" and "s \<noteq> []"
    and "map_of (tithiSearchCache st) (searchKey h (JStr s) lat lng) = None"
  shows "\<exists>st'. get_search_tithi h currentYear (JStr s) lat lng st = ((200, SearchBody result), st') \<and>
     tithiSearchCache st' =
       AList.update (searchKey h (JStr s) lat lng) result (tithiSearchCache st) \<and>
     map_of (tithiSearchCache st') (searchKey h (JStr s) lat lng) = Some result"
proof -
  have t: "truthy (JStr s)" using assms by simp
  obtain ms st1 where f: "fold (search_date h (JStr s) lat lng) (getDatesInCurrentYear currentYear) ([], st) = (ms, st1)"
    and g: "get_search_tithi h currentYear (JStr s) lat lng st =
       ((200, SearchBody \<lparr>r_tithi = JStr s, r_location = ToString h lat @ '', '' @ ToString h lng,
           totalMatches = length ms, r_dates = ms\<rparr>),
        st1\<lparr>tithiSearchCache := AList.update (searchKey h (JStr s) lat lng)
           \<lparr>r_tithi = JStr s, r_location = ToString h lat @ '', '' @ ToString h lng,
            totalMatches = length ms, r_dates = ms\<rparr> (tithiSearchCache st)\<rparr>)"
    using search_miss [OF t assms(3,4,6), of currentYear] by blast
  have "search_entries h s lat lng st = (\<lambda>d.
       case fst (getPanchangData h (JStr d) lat lng st) of
         Inr r \<Rightarrow> if toLowerCase (tithi r) = toLowerCase s then [matching_of r] else []
       | Inl e \<Rightarrow> [])"
    by (rule ext) (simp add: search_entries_def lookup_def)
  then have "ms = found"
    using search_fold [OF assms(5), of h lat lng "getDatesInCurrentYear currentYear" "[]" st] f
    by (simp add: found_def)
  then show ?thesis
    using g by (simp add: result_def update_conv')
qed

text \<open>
  With the example host the tithi of the 15th of each month is Purnima: the search for
  \<open>''purnima''\<close> in 2024 returns these twelve dates in order.
\<close>

theorem search_scan_witness:
  "\<exists>st'. get_search_tithi demo_host 2024 (JStr ''purnima'') demo_lat demo_lng init_server =
     ((200, SearchBody \<lparr>r_tithi = JStr ''purnima'', r_location = ''12.9716, 77.5946'',
         totalMatches = 12,
         r_dates = map (\<lambda>m. demo_match (iso_date 2024 (m, 15))) [1..<13]\<rparr>), st')"
proof -
  have "truthy demo_lat" "truthy demo_lng" "''purnima'' \<noteq> []"
    "map_of (tithiSearchCache init_server) (searchKey demo_host (JStr ''purnima'') demo_lat demo_lng)
      = None"
    by (simp_all add: demo_lat_def demo_lng_def init_server_def)
  from search_scan [OF this, of 2024]
  show ?thesis
    unfolding demo_found by (auto simp: demo_lat_def demo_lng_def demo_host_def)
qed

text \<open>
  C3, as amended. The search looks \<^verbatim>\<open>tithiSearchCache\<close> up under the key
  \<^verbatim>\<open>`${tithi}_${lat}_${lng}`\<close> with the term as it came, not lowercased. An entry under
  that key is returned as it is and nothing else happens; without one, the answer of the
  scan is stored under that key. Two terms that differ, be it only in case, have
  different keys.
\<close>

theorem search_key_as_given:
  assumes "truthy t" and "truthy lat" and "truthy lng"
  shows "(map_of (tithiSearchCache st) (searchKey h t lat lng) = Some cached \<longrightarrow>
            get_search_tithi h currentYear t lat lng st = ((200, SearchBody cached), st)) \<and>
         (map_of (tithiSearchCache st) (searchKey h t lat lng) = None \<longrightarrow>
            (\<exists>result st'. get_search_tithi h currentYear t lat lng st = ((200, SearchBody result), st') \<and>
               r_tithi result = t \<and>
               tithiSearchCache st' = AList.update (searchKey h t lat lng) result (tithiSearchCache st))) \<and>
         searchKey h t lat lng = ToString h t @ ''_'' @ ToString h lat @ ''_'' @ ToString h lng \<and>
         (\<forall>s s'. searchKey h (JStr s) lat lng = searchKey h (JStr s') lat lng \<longleftrightarrow> s = s')"
proof (intro conjI impI allI)
  assume "map_of (tithiSearchCache st) (searchKey h t lat lng) = Some cached"
  then show "get_search_tithi h currentYear t lat lng st = ((200, SearchBody cached), st)"
    using assms by (simp add: search_hit)
next
  assume "map_of (tithiSearchCache st) (searchKey h t lat lng) = None"
  from search_miss [OF assms this, of currentYear]
  show "\<exists>result st'. get_search_tithi h currentYear t lat lng st = ((200, SearchBody result), st') \<and>
               r_tithi result = t \<and>
               tithiSearchCache st' = AList.update (searchKey h t lat lng) result (tithiSearchCache st)"
    by force
next
  show "searchKey h t lat lng = ToString h t @ ''_'' @ ToString h lat @ ''_'' @ ToString h lng"
    by (simp add: searchKey_def)
next
  fix s s'
  show "searchKey h (JStr s) lat lng = searchKey h (JStr s') lat lng \<longleftrightarrow> s = s'"
    by (rule searchKey_inj_term)
qed

text \<open>A cached entry for \<open>''purnima''\<close> is returned; the key of \<open>''PURNIMA''\<close> is another.\<close>

theorem search_key_as_given_witness:
  "get_search_tithi demo_host 2024 (JStr ''purnima'') demo_lat demo_lng
     (init_server\<lparr>tithiSearchCache := [(''purnima_12.9716_77.5946'',
        \<lparr>r_tithi = JStr ''purnima'', r_location = ''12.9716, 77.5946'', totalMatches = 0,
         r_dates = []\<rparr>)]\<rparr>) =
     ((200, SearchBody \<lparr>r_tithi = JStr ''purnima'', r_location = ''12.9716, 77.5946'',
         totalMatches = 0, r_dates = []\<rparr>),
      init_server\<lparr>tithiSearchCache := [(''purnima_12.9716_77.5946'',
        \<lparr>r_tithi = JStr ''purnima'', r_location = ''12.9716, 77.5946'', totalMatches = 0,
         r_dates = []\<rparr>)]\<rparr>) \<and>
   searchKey demo_host (JStr ''purnima'') demo_lat demo_lng \<noteq>
   searchKey demo_host (JStr ''PURNIMA'') demo_lat demo_lng"
proof -
  have t: "truthy (JStr ''purnima'')" "truthy demo_lat" "truthy demo_lng"
    by (simp_all add: demo_lat_def demo_lng_def)
  from search_key_as_given [OF t, of
      "init_server\<lparr>tithiSearchCache := [(''purnima_12.9716_77.5946'',
        \<lparr>r_tithi = JStr ''purnima'', r_location = ''12.9716, 77.5946'', totalMatches = 0,
         r_dates = []\<rparr>)]\<rparr>" demo_host
      "\<lparr>r_tithi = JStr ''purnima'', r_location = ''12.9716, 77.5946'', totalMatches = 0,
         r_dates = []\<rparr>" 2024]
  show ?thesis
    by (simp add: searchKey_def demo_lat_def demo_lng_def)
qed

text \<open>
  C3 as stated fails: after a search for \<open>''purnima''\<close>, a search for \<open>''PURNIMA''\<close>
  at the same coordinate does not find its entry and stores a second one.
\<close>

theorem search_key_counterexample:
  "map fst (tithiSearchCache (snd (get_search_tithi demo_host 2024 (JStr ''PURNIMA'') demo_lat demo_lng
      (snd (get_search_tithi demo_host 2024 (JStr ''purnima'') demo_lat demo_lng init_server))))) =
   [''purnima_12.9716_77.5946'', ''PURNIMA_12.9716_77.5946'']"
proof -
  have t: "truthy (JStr ''PURNIMA'')" "truthy (JStr ''purnima'')" "truthy demo_lat" "truthy demo_lng"
    by (simp_all add: demo_lat_def demo_lng_def)
  show ?thesis
    by (simp add: search_keys t) (simp add: searchKey_def demo_lat_def demo_lng_def init_server_def)
qed

section \<open>The warm-up\<close>

lemma new_calls_eq:
  "new_calls h la lo d =
     (case calendar h d (ToString h la) (ToString h lo) of
        Inl e \<Rightarrow> [Calendar d (ToString h la) (ToString h lo)]
      | Inr r \<Rightarrow> [Calendar d (ToString h la) (ToString h lo),
                    SunTimer d (ToString h la) (ToString h lo)])"
  by (simp add: new_calls_def getPanchangData_def init_server_def Let_def called_def
      split: sum.splits)

lemma gpd_miss:
  assumes "map_of (panchangCache st) (getCacheKey h (JStr d) la lo) = None"
  shows "fst (getPanchangData h (JStr d) la lo st) = computed h (JStr d) la lo"
    and "lib_calls (snd (getPanchangData h (JStr d) la lo st)) = lib_calls st @ new_calls h la lo d"
    and "map_of (panchangCache (snd (getPanchangData h (JStr d) la lo st))) =
           (case computed h (JStr d) la lo of
              Inr r \<Rightarrow> (map_of (panchangCache st))(getCacheKey h (JStr d) la lo \<mapsto> r)
            | Inl e \<Rightarrow> map_of (panchangCache st))"
  using assms
  by (simp_all add: computed_def new_calls_def getPanchangData_def init_server_def Let_def
      called_def update_conv' split: sum.splits)

lemma cache_date_step:
  shows "fst (cache_date h la lo d (c, st)) =
       c + (if absent h la lo st d \<and> \<not> isl (computed h (JStr d) la lo) then 1 else 0)"
    and "lib_calls (snd (cache_date h la lo d (c, st))) =
       lib_calls st @ (if absent h la lo st d then new_calls h la lo d else [])"
    and "console (snd (cache_date h la lo d (c, st))) =
       console st @ (if absent h la lo st d then caching_errors h la lo d else [])"
    and "tithiSearchCache (snd (cache_date h la lo d (c, st))) = tithiSearchCache st"
    and "immediates (snd (cache_date h la lo d (c, st))) = immediates st"
    and "k \<noteq> getCacheKey h (JStr d) la lo \<Longrightarrow>
        map_of (panchangCache (snd (cache_date h la lo d (c, st)))) k = map_of (panchangCache st) k"
    and "map_of (panchangCache (snd (cache_date h la lo d (c, st)))) (getCacheKey h (JStr d) la lo) =
       (case lookup h la lo st d of Inr r \<Rightarrow> Some r | Inl e \<Rightarrow> None)"
proof -
  have "fst (cache_date h la lo d (c, st)) =
       c + (if absent h la lo st d \<and> \<not> isl (computed h (JStr d) la lo) then 1 else 0) \<and>
     lib_calls (snd (cache_date h la lo d (c, st))) =
       lib_calls st @ (if absent h la lo st d then new_calls h la lo d else []) \<and>
     console (snd (cache_date h la lo d (c, st))) =
       console st @ (if absent h la lo st d then caching_errors h la lo d else []) \<and>
     tithiSearchCache (snd (cache_date h la lo d (c, st))) = tithiSearchCache st \<and>
     immediates (snd (cache_date h la lo d (c, st))) = immediates st \<and>
     (k \<noteq> getCacheKey h (JStr d) la lo \<longrightarrow>
        map_of (panchangCache (snd (cache_date h la lo d (c, st)))) k = map_of (panchangCache st) k) \<and>
     map_of (panchangCache (snd (cache_date h la lo d (c, st)))) (getCacheKey h (JStr d) la lo) =
       (case lookup h la lo st d of Inr r \<Rightarrow> Some r | Inl e \<Rightarrow> None)"
  proof (cases "absent h la lo st d")
    case False
    then obtain r where "map_of (panchangCache st) (getCacheKey h (JStr d) la lo) = Some r"
      by (auto simp: absent_def Map_has_def)
    then show ?thesis
      using False by (simp add: cache_date_def absent_def lookup_def gpd_fst)
  next
    case True
    then have miss: "map_of (panchangCache st) (getCacheKey h (JStr d) la lo) = None"
      by (simp add: absent_def Map_has_def)
    obtain v st0 where g: "getPanchangData h (JStr d) la lo st = (v, st0)" by force
    with gpd_miss [OF miss] have v: "v = computed h (JStr d) la lo"
      and l: "lib_calls st0 = lib_calls st @ new_calls h la lo d"
      and m: "map_of (panchangCache st0) =
             (case computed h (JStr d) la lo of
                Inr r \<Rightarrow> (map_of (panchangCache st))(getCacheKey h (JStr d) la lo \<mapsto> r)
              | Inl e \<Rightarrow> map_of (panchangCache st))"
      by simp_all
    have u: "tithiSearchCache st0 = tithiSearchCache st" "immediates st0 = immediates st"
      "console st0 = console st"
      using gpd_untouched [of h "JStr d" la lo st] g by simp_all
    have lk: "lookup h la lo st d = computed h (JStr d) la lo"
      using g v by (simp add: lookup_def)
    show ?thesis
      using True g l m u miss
      by (cases v) (auto simp: cache_date_def absent_def lk caching_errors_def v [symmetric])
  qed
  then show "fst (cache_date h la lo d (c, st)) =
       c + (if absent h la lo st d \<and> \<not> isl (computed h (JStr d) la lo) then 1 else 0)"
    and "lib_calls (snd (cache_date h la lo d (c, st))) =
       lib_calls st @ (if absent h la lo st d then new_calls h la lo d else [])"
    and "console (snd (cache_date h la lo d (c, st))) =
       console st @ (if absent h la lo st d then caching_errors h la lo d else [])"
    and "tithiSearchCache (snd (cache_date h la lo d (c, st))) = tithiSearchCache st"
    and "immediates (snd (cache_date h la lo d (c, st))) = immediates st"
    and "k \<noteq> getCacheKey h (JStr d) la lo \<Longrightarrow>
        map_of (panchangCache (snd (cache_date h la lo d (c, st)))) k = map_of (panchangCache st) k"
    and "map_of (panchangCache (snd (cache_date h la lo d (c, st)))) (getCacheKey h (JStr d) la lo) =
       (case lookup h la lo st d of Inr r \<Rightarrow> Some r | Inl e \<Rightarrow> None)"
    by simp_all
qed

lemma absent_cong:
  "map_of (panchangCache st1) (getCacheKey h (JStr d) la lo) =
   map_of (panchangCache st) (getCacheKey h (JStr d) la lo) \<Longrightarrow>
   absent h la lo st1 d = absent h la lo st d"
  by (simp add: absent_def Map_has_def)

lemma lookup_cong:
  "map_of (panchangCache st1) (getCacheKey h (JStr d) la lo) =
   map_of (panchangCache st) (getCacheKey h (JStr d) la lo) \<Longrightarrow>
   lookup h la lo st1 d = lookup h la lo st d"
  by (simp add: lookup_def gpd_fst)

lemma cache_fold:
  assumes "distinct ds"
  shows "fst (fold (cache_date h la lo) ds (c, st)) =
       c + length (filter (\<lambda>d. \<not> isl (computed h (JStr d) la lo)) (filter (absent h la lo st) ds)) \<and>
     lib_calls (snd (fold (cache_date h la lo) ds (c, st))) =
       lib_calls st @ concat (map (new_calls h la lo) (filter (absent h la lo st) ds)) \<and>
     console (snd (fold (cache_date h la lo) ds (c, st))) =
       console st @ concat (map (caching_errors h la lo) (filter (absent h la lo st) ds)) \<and>
     tithiSearchCache (snd (fold (cache_date h la lo) ds (c, st))) = tithiSearchCache st \<and>
     immediates (snd (fold (cache_date h la lo) ds (c, st))) = immediates st \<and>
     (\<forall>k. k \<notin> (\<lambda>d. getCacheKey h (JStr d) la lo) ` set ds \<longrightarrow>
        map_of (panchangCache (snd (fold (cache_date h la lo) ds (c, st)))) k =
        map_of (panchangCache st) k) \<and>
     (\<forall>d\<in>set ds.
        map_of (panchangCache (snd (fold (cache_date h la lo) ds (c, st))))
          (getCacheKey h (JStr d) la lo) =
        (case lookup h la lo st d of Inr r \<Rightarrow> Some r | Inl e \<Rightarrow> None))"
  using assms
proof (induction ds arbitrary: c st)
  case Nil
  then show ?case by simp
next
  case (Cons d ds)
  let ?key = "\<lambda>d. getCacheKey h (JStr d) la lo"
  obtain c1 st1 where cd: "cache_date h la lo d (c, st) = (c1, st1)" by force
  let ?st' = "snd (fold (cache_date h la lo) ds (c1, st1))"
  note step = cache_date_step [where h = h and la = la and lo = lo and d = d and c = c and st = st,
      unfolded cd fst_conv snd_conv]
  from Cons.prems have dn: "d \<notin> set ds" and dist: "distinct ds" by simp_all
  have same: "map_of (panchangCache st1) (?key d') = map_of (panchangCache st) (?key d')"
    if "d' \<in> set ds" for d'
  proof -
    from that dn have "?key d' \<noteq> ?key d" by auto
    then show ?thesis by (rule step(6))
  qed
  have f: "filter (absent h la lo st1) ds = filter (absent h la lo st) ds"
    by (rule filter_cong [OF refl], rule absent_cong, rule same)
  have unfold: "fold (cache_date h la lo) (d # ds) (c, st) = fold (cache_date h la lo) ds (c1, st1)"
    by (simp add: cd)
  note IH = Cons.IH [OF dist, of c1 st1, unfolded f]
  note i1 = IH [THEN conjunct1]
  note r1 = IH [THEN conjunct2]
  note i2 = r1 [THEN conjunct1]
  note r2 = r1 [THEN conjunct2]
  note i3 = r2 [THEN conjunct1]
  note r3 = r2 [THEN conjunct2]
  note i4 = r3 [THEN conjunct1]
  note r4 = r3 [THEN conjunct2]
  note i5 = r4 [THEN conjunct1]
  note r5 = r4 [THEN conjunct2]
  have i6: "map_of (panchangCache ?st') k = map_of (panchangCache st1) k" if "k \<notin> ?key ` set ds" for k
    using r5 [THEN conjunct1] that by blast
  have i7: "map_of (panchangCache ?st') (?key d') =
        (case lookup h la lo st1 d' of Inr r \<Rightarrow> Some r | Inl e \<Rightarrow> None)" if "d' \<in> set ds" for d'
    using r5 [THEN conjunct2] that by blast
  have kd: "?key d \<notin> ?key ` set ds" using dn by auto
  show ?case unfolding unfold
  proof (intro conjI allI impI ballI)
    show "fst (fold (cache_date h la lo) ds (c1, st1)) =
       c + length (filter (\<lambda>d. \<not> isl (computed h (JStr d) la lo)) (filter (absent h la lo st) (d # ds)))"
      using i1 step(1) by simp
    show "lib_calls ?st' =
       lib_calls st @ concat (map (new_calls h la lo) (filter (absent h la lo st) (d # ds)))"
      using i2 step(2) by simp
    show "console ?st' =
       console st @ concat (map (caching_errors h la lo) (filter (absent h la lo st) (d # ds)))"
      using i3 step(3) by simp
    show "tithiSearchCache ?st' = tithiSearchCache st"
      using i4 step(4) by simp
    show "immediates ?st' = immediates st"
      using i5 step(5) by simp
  next
    fix k assume k: "k \<notin> ?key ` set (d # ds)"
    then have "k \<notin> ?key ` set ds" "k \<noteq> ?key d" by auto
    then show "map_of (panchangCache ?st') k = map_of (panchangCache st) k"
      using i6 [of k] step(6) [of k] by simp
  next
    fix d' assume "d' \<in> set (d # ds)"
    then consider "d' = d" | "d' \<in> set ds" by auto
    then show "map_of (panchangCache ?st') (?key d') =
        (case lookup h la lo st d' of Inr r \<Rightarrow> Some r | Inl e \<Rightarrow> None)"
    proof cases
      case 1
      then show ?thesis using i6 [OF kd] step(7) by simp
    next
      case 2
      then show ?thesis using i7 [OF 2] lookup_cong [OF same [OF 2]] by simp
    qed
  qed
qed

lemma take_chunk: "take (min (s + b) (length xs) - s) (drop s xs) = take b (drop s xs)"
  by (cases "s + b \<le> length xs") (simp_all add: min_def)

lemma processBatch_eq:
  "processBatch h job st =
     (let r = fold (cache_date h (j_lat job) (j_lng job))
                (take 50 (drop (currentBatch job * 50) (j_dates job))) (cachedCount job, st)
      in if currentBatch job * 50 + 50 < length (j_dates job)
         then (snd r)\<lparr>immediates := immediates (snd r) @
                [job\<lparr>cachedCount := fst r, currentBatch := currentBatch job + 1\<rparr>]\<rparr>
         else snd r)"
  by (simp add: processBatch_def batchSize_def Let_def take_chunk split: prod.splits)

lemma processBatch_facts:
  fixes h :: host and job :: warm_job and st :: server
  defines "lat \<equiv> j_lat job" and "lng \<equiv> j_lng job"
  defines "chunk \<equiv> take 50 (drop (currentBatch job * 50) (j_dates job))"
  defines "todo \<equiv> filter (\<lambda>d. \<not> Map_has (panchangCache st) (getCacheKey h (JStr d) lat lng)) chunk"
  defines "st' \<equiv> processBatch h job st"
  assumes "distinct (j_dates job)"
  shows "length todo \<le> length chunk \<and> length chunk \<le> 50 \<and>
    lib_calls st' = lib_calls st @ concat (map (new_calls h lat lng) todo) \<and>
    (\<forall>d. \<exists>rest. new_calls h lat lng d = Calendar d (ToString h lat) (ToString h lng) # rest \<and>
        length rest \<le> 1) \<and>
    console st' = console st @ concat (map (\<lambda>d.
        case fst (getPanchangData h (JStr d) lat lng init_server) of
          Inl e \<Rightarrow> [''Error caching '' @ d @ '': '' @ message e]
        | Inr r \<Rightarrow> []) todo) \<and>
    (\<forall>d\<in>set chunk. map_of (panchangCache st') (getCacheKey h (JStr d) lat lng) =
        (case fst (getPanchangData h (JStr d) lat lng st) of Inr r \<Rightarrow> Some r | Inl e \<Rightarrow> None)) \<and>
    (\<forall>k. k \<notin> (\<lambda>d. getCacheKey h (JStr d) lat lng) ` set chunk \<longrightarrow>
        map_of (panchangCache st') k = map_of (panchangCache st) k) \<and>
    tithiSearchCache st' = tithiSearchCache st \<and>
    immediates st' = immediates st @
      (if currentBatch job * 50 + 50 < length (j_dates job)
       then [job\<lparr>cachedCount := cachedCount job +
                 length (filter (\<lambda>d. \<not> isl (fst (getPanchangData h (JStr d) lat lng init_server))) todo),
               currentBatch := currentBatch job + 1\<rparr>]
       else [])"
proof -
  have dc: "distinct chunk" using assms by (simp add: chunk_def)
  have todo: "todo = filter (absent h lat lng st) chunk"
    by (simp add: todo_def absent_def [abs_def])
  note F = cache_fold [OF dc, of h lat lng "cachedCount job" st, folded todo]
  let ?r = "fold (cache_date h lat lng) chunk (cachedCount job, st)"
  have st': "st' = (if currentBatch job * 50 + 50 < length (j_dates job)
         then (snd ?r)\<lparr>immediates := immediates (snd ?r) @
                [job\<lparr>cachedCount := fst ?r, currentBatch := currentBatch job + 1\<rparr>]\<rparr>
         else snd ?r)"
    by (simp add: st'_def processBatch_eq Let_def chunk_def lat_def lng_def)
  have fields: "lib_calls st' = lib_calls (snd ?r)" "console st' = console (snd ?r)"
    "panchangCache st' = panchangCache (snd ?r)" "tithiSearchCache st' = tithiSearchCache (snd ?r)"
    unfolding st' by simp_all
  have ce: "caching_errors h lat lng = (\<lambda>d.
        case fst (getPanchangData h (JStr d) lat lng init_server) of
          Inl e \<Rightarrow> [''Error caching '' @ d @ '': '' @ message e]
        | Inr r \<Rightarrow> [])"
    by (rule ext) (simp add: caching_errors_def computed_def)
  show ?thesis
  proof (intro conjI allI ballI impI)
    show "length todo \<le> length chunk" by (simp add: todo_def)
    show "length chunk \<le> 50" by (simp add: chunk_def)
    show "lib_calls st' = lib_calls st @ concat (map (new_calls h lat lng) todo)"
      unfolding fields using F by (elim conjE)
    show "\<exists>rest. new_calls h lat lng d = Calendar d (ToString h lat) (ToString h lng) # rest \<and>
        length rest \<le> 1" for d
      by (simp add: new_calls_eq split: sum.splits)
    show "console st' = console st @ concat (map (\<lambda>d.
        case fst (getPanchangData h (JStr d) lat lng init_server) of
          Inl e \<Rightarrow> [''Error caching '' @ d @ '': '' @ message e]
        | Inr r \<Rightarrow> []) todo)"
      unfolding fields ce [symmetric] using F by (elim conjE)
    show "tithiSearchCache st' = tithiSearchCache st"
      unfolding fields using F by (elim conjE)
    show "immediates st' = immediates st @
      (if currentBatch job * 50 + 50 < length (j_dates job)
       then [job\<lparr>cachedCount := cachedCount job +
                 length (filter (\<lambda>d. \<not> isl (fst (getPanchangData h (JStr d) lat lng init_server))) todo),
               currentBatch := currentBatch job + 1\<rparr>]
       else [])"
      unfolding st' using F by (simp add: computed_def)
  next
    fix d assume "d \<in> set chunk"
    then show "map_of (panchangCache st') (getCacheKey h (JStr d) lat lng) =
        (case fst (getPanchangData h (JStr d) lat lng st) of Inr r \<Rightarrow> Some r | Inl e \<Rightarrow> None)"
      unfolding fields using F by (simp add: lookup_def)
  next
    fix k assume "k \<notin> (\<lambda>d. getCacheKey h (JStr d) lat lng) ` set chunk"
    then show "map_of (panchangCache st') k = map_of (panchangCache st) k"
      unfolding fields using F by blast
  qed
qed

lemma warm_first_batch:
  fixes h :: host and lat lng :: jsval and st :: server and currentYear :: nat
  defines "dates \<equiv> getDatesInCurrentYear currentYear"
  defines "todo \<equiv> filter (\<lambda>d. \<not> Map_has (panchangCache st) (getCacheKey h (JStr d) lat lng))
      (take 50 dates)"
  assumes "truthy lat" and "truthy lng"
  shows "\<exists>st'. post_cache_year h currentYear lat lng st =
       ((200, CacheYearBody ''Year caching started'' (length dates)
           (ToString h lat @ '', '' @ ToString h lng)), st') \<and>
     length dates = (if isLeapYear (Date_year currentYear) then 366 else 365) \<and>
     lib_calls st' = lib_calls st @ concat (map (new_calls h lat lng) todo) \<and>
     (\<forall>d\<in>set (take 50 dates). map_of (panchangCache st') (getCacheKey h (JStr d) lat lng) =
        (case fst (getPanchangData h (JStr d) lat lng st) of Inr r \<Rightarrow> Some r | Inl e \<Rightarrow> None)) \<and>
     (\<forall>k. k \<notin> (\<lambda>d. getCacheKey h (JStr d) lat lng) ` set (take 50 dates) \<longrightarrow>
        map_of (panchangCache st') k = map_of (panchangCache st) k) \<and>
     immediates st' = immediates st @
       [\<lparr>j_dates = dates, j_lat = lat, j_lng = lng,
         cachedCount =
           length (filter (\<lambda>d. \<not> isl (fst (getPanchangData h (JStr d) lat lng init_server))) todo),
         currentBatch = 1\<rparr>]"
proof -
  let ?job = "\<lparr>j_dates = dates, j_lat = lat, j_lng = lng, cachedCount = 0, currentBatch = 0\<rparr>"
  have d: "distinct (j_dates ?job)" by (simp add: dates_def distinct_dates_all)
  have n: "length dates = (if isLeapYear (Date_year currentYear) then 366 else 365)"
    by (simp add: dates_def length_dates_all)
  then have more: "50 < length dates" by (simp split: if_splits)
  have r: "post_cache_year h currentYear lat lng st =
       ((200, CacheYearBody ''Year caching started'' (length dates)
           (ToString h lat @ '', '' @ ToString h lng)), processBatch h ?job st)"
    using assms(3,4) by (simp add: post_cache_year_def Let_def dates_def)
  note F = processBatch_facts [OF d, where h = h and st = st]
  show ?thesis
    using r n more F
    by (intro exI [of _ "processBatch h ?job st"]) (simp add: todo_def del: filter_filter)
qed

lemma demo_computes:
  assumes "d \<noteq> ''bad''"
  shows "\<not> isl (fst (getPanchangData demo_host (JStr d) la lo init_server))"
    and "length (new_calls demo_host la lo d) = 2"
  using assms
  by (simp_all add: new_calls_eq getPanchangData_def demo_host_def demo_calendar_def
      init_server_def Let_def)

lemma bad_not_date: "''bad'' \<notin> set (getDatesInCurrentYear 2024)"
  by (auto simp: dates_eq iso_date_def)

lemma length_concat_const:
  "(\<And>x. x \<in> set xs \<Longrightarrow> length (f x) = n) \<Longrightarrow> length (concat (map f xs)) = n * length xs"
  by (induction xs) simp_all

lemma demo_first_batch:
  defines "first \<equiv> take 50 (getDatesInCurrentYear 2024)"
  shows "filter (\<lambda>d. \<not> Map_has (panchangCache init_server)
            (getCacheKey demo_host (JStr d) demo_lat demo_lng)) first = first"
    and "filter (\<lambda>d. \<not> isl (fst (getPanchangData demo_host (JStr d) demo_lat demo_lng init_server)))
            first = first"
    and "length (concat (map (new_calls demo_host demo_lat demo_lng) first)) = 100"
    and "length first = 50"
    and "''2024-01-01'' \<in> set first"
proof -
  have len: "length (getDatesInCurrentYear 2024) = 366"
    by (simp add: dates_eq length_calendar_days)
  then show l: "length first = 50" by (simp add: first_def)
  have nb: "d \<noteq> ''bad''" if "d \<in> set first" for d
    using that bad_not_date in_set_takeD unfolding first_def by fastforce
  show "filter (\<lambda>d. \<not> Map_has (panchangCache init_server)
            (getCacheKey demo_host (JStr d) demo_lat demo_lng)) first = first"
    by (simp add: init_server_def Map_has_def)
  show "filter (\<lambda>d. \<not> isl (fst (getPanchangData demo_host (JStr d) demo_lat demo_lng init_server)))
            first = first"
    by (rule filter_True) (simp add: nb demo_computes)
  have "length (concat (map (new_calls demo_host demo_lat demo_lng) first)) = 2 * length first"
    by (rule length_concat_const) (simp add: nb demo_computes)
  then show "length (concat (map (new_calls demo_host demo_lat demo_lng) first)) = 100"
    using l by simp
  have "hd (getDatesInCurrentYear 2024) = ''2024-01-01''"
    by (simp add: dates_eq hd_map calendar_days_not_Nil hd_calendar_days iso_date_def digit_def)
  moreover have "hd first = hd (getDatesInCurrentYear 2024)" by (simp add: first_def)
  moreover have "first \<noteq> []" using l by auto
  ultimately show "''2024-01-01'' \<in> set first" by (metis hd_in_set)
qed

text \<open>
  C8. One call of \<^verbatim>\<open>processBatch\<close> goes through the dates with the indices from
  \<open>50 * currentBatch\<close> up to \<open>50 * currentBatch + 50\<close> (at most 50 dates) and
  returns. It calls the library for the dates of this chunk whose key is not in
  \<^verbatim>\<open>panchangCache\<close>, in their order, and for no other date: a date that is cached is
  skipped. A date whose computation throws gets a line on the console and the dates
  after it are still computed. After the call each date of the chunk is cached when
  its lookup gave a record, and no other key has changed. When dates remain, the job
  is queued once with \<^verbatim>\<open>setImmediate\<close>, with the next batch number; otherwise nothing
  is queued. The dates of a job are distinct, as those of a year are.
\<close>

theorem batch_warmer:
  fixes h :: host and job :: warm_job and st :: server
  defines "lat \<equiv> j_lat job" and "lng \<equiv> j_lng job"
  defines "chunk \<equiv> take 50 (drop (currentBatch job * 50) (j_dates job))"
  defines "todo \<equiv> filter (\<lambda>d. \<not> Map_has (panchangCache st) (getCacheKey h (JStr d) lat lng)) chunk"
  defines "st' \<equiv> processBatch h job st"
  assumes "distinct (j_dates job)"
  shows "length todo \<le> length chunk \<and> length chunk \<le> 50 \<and>
    lib_calls st' = lib_calls st @ concat (map (new_calls h lat lng) todo) \<and>
    (\<forall>d. \<exists>rest. new_calls h lat lng d = Calendar d (ToString h lat) (ToString h lng) # rest \<and>
        length rest \<le> 1) \<and>
    console st' = console st @ concat (map (\<lambda>d.
        case fst (getPanchangData h (JStr d) lat lng init_server) of
          Inl e \<Rightarrow> [''Error caching '' @ d @ '': '' @ message e]
        | Inr r \<Rightarrow> []) todo) \<and>
    (\<forall>d\<in>set chunk. map_of (panchangCache st') (getCacheKey h (JStr d) lat lng) =
        (case fst (getPanchangData h (JStr d) lat lng st) of Inr r \<Rightarrow> Some r | Inl e \<Rightarrow> None)) \<and>
    (\<forall>k. k \<notin> (\<lambda>d. getCacheKey h (JStr d) lat lng) ` set chunk \<longrightarrow>
        map_of (panchangCache st') k = map_of (panchangCache st) k) \<and>
    tithiSearchCache st' = tithiSearchCache st \<and>
    immediates st' = immediates st @
      (if currentBatch job * 50 + 50 < length (j_dates job)
       then [job\<lparr>cachedCount := cachedCount job +
                 length (filter (\<lambda>d. \<not> isl (fst (getPanchangData h (JStr d) lat lng init_server))) todo),
               currentBatch := currentBatch job + 1\<rparr>]
       else [])"
  unfolding lat_def lng_def chunk_def todo_def st'_def
  using assms(6) by (rule processBatch_facts)

text \<open>
  A chunk with a cached date and a date that throws; the seventh batch of 2024 queues
  the eighth, which is the last.
\<close>

theorem batch_warmer_witness:
  "lib_calls (processBatch demo_host demo_job demo_cached) =
     [Calendar ''bad'' ''12.9716'' ''77.5946'', Calendar ''2024-01-03'' ''12.9716'' ''77.5946'',
      SunTimer ''2024-01-03'' ''12.9716'' ''77.5946''] \<and>
   console (processBatch demo_host demo_job demo_cached) =
     [''Error caching bad: Failed to calculate panchang: Invalid time value''] \<and>
   immediates (processBatch demo_host demo_job demo_cached) = [] \<and>
   immediates (processBatch demo_host
      \<lparr>j_dates = getDatesInCurrentYear 2024, j_lat = demo_lat, j_lng = demo_lng, cachedCount = 300,
        currentBatch = 6\<rparr> init_server) =
     [\<lparr>j_dates = getDatesInCurrentYear 2024, j_lat = demo_lat, j_lng = demo_lng, cachedCount = 350,
        currentBatch = 7\<rparr>] \<and>
   immediates (processBatch demo_host
      \<lparr>j_dates = getDatesInCurrentYear 2024, j_lat = demo_lat, j_lng = demo_lng, cachedCount = 350,
        currentBatch = 7\<rparr> init_server) = []"
proof (intro conjI)
  have d: "distinct (j_dates demo_job)" by (simp add: demo_job_def)
  note W = batch_warmer [OF d, where h = demo_host and st = demo_cached]
  have todo: "filter (\<lambda>d. \<not> Map_has (panchangCache demo_cached)
      (getCacheKey demo_host (JStr d) (j_lat demo_job) (j_lng demo_job)))
      (take 50 (drop (currentBatch demo_job * 50) (j_dates demo_job))) = [''bad'', ''2024-01-03'']"
    by (simp add: demo_job_def demo_cached_def init_server_def Map_has_def getCacheKey_def
        demo_lat_def demo_lng_def)
  show "lib_calls (processBatch demo_host demo_job demo_cached) =
     [Calendar ''bad'' ''12.9716'' ''77.5946'', Calendar ''2024-01-03'' ''12.9716'' ''77.5946'',
      SunTimer ''2024-01-03'' ''12.9716'' ''77.5946'']"
    using W unfolding todo
    by (simp add: new_calls_eq demo_job_def demo_cached_def init_server_def demo_host_def
        demo_calendar_def demo_lat_def demo_lng_def)
  show "console (processBatch demo_host demo_job demo_cached) =
     [''Error caching bad: Failed to calculate panchang: Invalid time value'']"
    using W unfolding todo
    by (simp add: getPanchangData_def Let_def failed_def demo_job_def demo_cached_def
        init_server_def demo_host_def demo_calendar_def demo_lat_def demo_lng_def)
  show "immediates (processBatch demo_host demo_job demo_cached) = []"
    using W by (simp add: demo_job_def demo_cached_def init_server_def)
next
  let ?dates = "getDatesInCurrentYear 2024"
  have len: "length ?dates = 366" by (simp add: dates_eq length_calendar_days)
  let ?j = "\<lparr>j_dates = ?dates, j_lat = demo_lat, j_lng = demo_lng, cachedCount = 350, currentBatch = 7\<rparr>"
  have d: "distinct (j_dates ?j)" by (simp add: distinct_dates_all)
  from batch_warmer [OF d, where h = demo_host and st = init_server]
  show "immediates (processBatch demo_host ?j init_server) = []"
    by (simp add: len init_server_def)
next
  let ?dates = "getDatesInCurrentYear 2024"
  have len: "length ?dates = 366" by (simp add: dates_eq length_calendar_days)
  let ?j = "\<lparr>j_dates = ?dates, j_lat = demo_lat, j_lng = demo_lng, cachedCount = 300, currentBatch = 6\<rparr>"
  let ?chunk = "take 50 (drop 300 ?dates)"
  have d: "distinct (j_dates ?j)" by (simp add: distinct_dates_all)
  have nb: "x \<noteq> ''bad''" if "x \<in> set ?chunk" for x
    using that bad_not_date by (metis in_set_dropD in_set_takeD)
  have a: "filter (\<lambda>d. \<not> Map_has (panchangCache init_server)
            (getCacheKey demo_host (JStr d) demo_lat demo_lng)) ?chunk = ?chunk"
    by (simp add: init_server_def Map_has_def)
  have b: "filter (\<lambda>d. \<not> isl (fst (getPanchangData demo_host (JStr d) demo_lat demo_lng init_server)))
            ?chunk = ?chunk"
    by (rule filter_True) (simp add: nb demo_computes)
  have c: "length ?chunk = 50" by (simp add: len)
  from batch_warmer [OF d, where h = demo_host and st = init_server]
  have "immediates (processBatch demo_host ?j init_server) = immediates init_server @
      [?j\<lparr>cachedCount := cachedCount ?j + length ?chunk, currentBatch := currentBatch ?j + 1\<rparr>]"
    by (simp add: a b len del: filter_filter)
  then show "immediates (processBatch demo_host ?j init_server) =
     [\<lparr>j_dates = ?dates, j_lat = demo_lat, j_lng = demo_lng, cachedCount = 350, currentBatch = 7\<rparr>]"
    by (simp add: len init_server_def)
qed

text \<open>
  C2, as amended. \<^verbatim>\<open>POST /cache-year\<close> takes no year: for truthy \<^verbatim>\<open>lat\<close> and
  \<^verbatim>\<open>lng\<close> it answers with \<^verbatim>\<open>totalDates\<close> the number of days of the current year and
  with the location. The handler calls \<^verbatim>\<open>processBatch\<close> once before it answers: at the
  response the first 50 dates have been looked up (those not cached have been computed
  and stored), no other key has changed, and the rest of the year is one queued job
  with batch number 1.
\<close>

theorem warm_response:
  fixes h :: host and lat lng :: jsval and st :: server and currentYear :: nat
  defines "dates \<equiv> getDatesInCurrentYear currentYear"
  defines "todo \<equiv> filter (\<lambda>d. \<not> Map_has (panchangCache st) (getCacheKey h (JStr d) lat lng))
      (take 50 dates)"
  assumes "truthy lat" and "truthy lng"
  shows "\<exists>st'. post_cache_year h currentYear lat lng st =
       ((200, CacheYearBody ''Year caching started'' (length dates)
           (ToString h lat @ '', '' @ ToString h lng)), st') \<and>
     length dates = (if isLeapYear (Date_year currentYear) then 366 else 365) \<and>
     lib_calls st' = lib_calls st @ concat (map (new_calls h lat lng) todo) \<and>
     (\<forall>d\<in>set (take 50 dates). map_of (panchangCache st') (getCacheKey h (JStr d) lat lng) =
        (case fst (getPanchangData h (JStr d) lat lng st) of Inr r \<Rightarrow> Some r | Inl e \<Rightarrow> None)) \<and>
     (\<forall>k. k \<notin> (\<lambda>d. getCacheKey h (JStr d) lat lng) ` set (take 50 dates) \<longrightarrow>
        map_of (panchangCache st') k = map_of (panchangCache st) k) \<and>
     immediates st' = immediates st @
       [\<lparr>j_dates = dates, j_lat = lat, j_lng = lng,
         cachedCount =
           length (filter (\<lambda>d. \<not> isl (fst (getPanchangData h (JStr d) lat lng init_server))) todo),
         currentBatch = 1\<rparr>]"
  unfolding dates_def todo_def using assms(3,4) by (rule warm_first_batch)

text \<open>The year 2024 on an empty server: 366 dates, 50 of them computed at the response.\<close>

theorem warm_response_witness:
  "\<exists>st'. post_cache_year demo_host 2024 demo_lat demo_lng init_server =
       ((200, CacheYearBody ''Year caching started'' 366 ''12.9716, 77.5946''), st') \<and>
     length (lib_calls st') = 100 \<and>
     immediates st' =
       [\<lparr>j_dates = getDatesInCurrentYear 2024, j_lat = demo_lat, j_lng = demo_lng,
         cachedCount = 50, currentBatch = 1\<rparr>]"
proof -
  have t: "truthy demo_lat" "truthy demo_lng" by (simp_all add: demo_lat_def demo_lng_def)
  have len: "length (getDatesInCurrentYear 2024) = 366"
    by (simp add: dates_eq length_calendar_days)
  from warm_response [OF t, of demo_host 2024 init_server]
  obtain st' where r: "post_cache_year demo_host 2024 demo_lat demo_lng init_server =
       ((200, CacheYearBody ''Year caching started'' (length (getDatesInCurrentYear 2024))
           (ToString demo_host demo_lat @ '', '' @ ToString demo_host demo_lng)), st')"
    and l: "lib_calls st' = lib_calls init_server @
        concat (map (new_calls demo_host demo_lat demo_lng) (take 50 (getDatesInCurrentYear 2024)))"
    and i: "immediates st' = immediates init_server @
       [\<lparr>j_dates = getDatesInCurrentYear 2024, j_lat = demo_lat, j_lng = demo_lng,
         cachedCount = length (take 50 (getDatesInCurrentYear 2024)), currentBatch = 1\<rparr>]"
    unfolding demo_first_batch by blast
  have "length (lib_calls st') = 100"
    unfolding l by (simp add: demo_first_batch init_server_def)
  moreover have "immediates st' =
       [\<lparr>j_dates = getDatesInCurrentYear 2024, j_lat = demo_lat, j_lng = demo_lng,
         cachedCount = 50, currentBatch = 1\<rparr>]"
    unfolding i by (simp add: len init_server_def)
  ultimately show ?thesis
    using r by (simp add: len demo_lat_def demo_lng_def)
qed

text \<open>
  C2 as stated fails: at the response the library has been called 100 times (twice for
  each of the first 50 dates) and January 1 is in the cache.
\<close>

theorem warm_response_counterexample:
  "length (lib_calls (snd (post_cache_year demo_host 2024 demo_lat demo_lng init_server))) = 100 \<and>
   Map_has (panchangCache (snd (post_cache_year demo_host 2024 demo_lat demo_lng init_server)))
     ''2024-01-01_12.9716_77.5946''"
proof -
  have t: "truthy demo_lat" "truthy demo_lng" by (simp_all add: demo_lat_def demo_lng_def)
  let ?dates = "getDatesInCurrentYear 2024"
  from warm_first_batch [OF t, of demo_host 2024 init_server]
  obtain st' where r: "snd (post_cache_year demo_host 2024 demo_lat demo_lng init_server) = st'"
    and l: "lib_calls st' = lib_calls init_server @
        concat (map (new_calls demo_host demo_lat demo_lng) (take 50 ?dates))"
    and c: "\<And>d. d \<in> set (take 50 ?dates) \<Longrightarrow>
        map_of (panchangCache st') (getCacheKey demo_host (JStr d) demo_lat demo_lng) =
        (case fst (getPanchangData demo_host (JStr d) demo_lat demo_lng init_server) of
           Inr r \<Rightarrow> Some r | Inl e \<Rightarrow> None)"
    unfolding demo_first_batch by auto
  have "length (lib_calls st') = 100"
    unfolding l by (simp add: demo_first_batch init_server_def)
  moreover have "\<not> isl (fst (getPanchangData demo_host (JStr ''2024-01-01'') demo_lat demo_lng init_server))"
    by (rule demo_computes) simp
  then have "map_of (panchangCache st') (getCacheKey demo_host (JStr ''2024-01-01'') demo_lat demo_lng)
      \<noteq> None"
    using c [OF demo_first_batch(5)] by (auto split: sum.splits)
  then have "Map_has (panchangCache st') ''2024-01-01_12.9716_77.5946''"
    by (simp add: Map_has_def getCacheKey_def demo_lat_def demo_lng_def)
  ultimately show ?thesis unfolding r by simp
qed

section \<open>The suggestions\<close>

lemma Set_add_set [simp]: "set (Set_add x xs) = insert x (set xs)"
  by (auto simp: Set_add_def)

lemma Set_add_distinct [simp]: "distinct (Set_add x xs) = distinct xs"
  by (auto simp: Set_add_def)

lemma sample_date_step:
  "\<exists>st'. sample_date h la lo d (ts, st) =
      ((case lookup h la lo st d of
          Inr r \<Rightarrow> if tithi r \<noteq> [] then Set_add (tithi r) ts else ts
        | Inl e \<Rightarrow> ts), st') \<and>
     (\<forall>d'. lookup h la lo st' d' = lookup h la lo st d')"
proof (cases "getPanchangData h (JStr d) la lo st")
  case (Pair v st1)
  then have v: "lookup h la lo st d = v" and st1: "st1 = snd (getPanchangData h (JStr d) la lo st)"
    by (simp_all add: lookup_def)
  have stable: "lookup h la lo st1 d' = lookup h la lo st d'" for d'
    unfolding st1 by (rule lookup_stable)
  show ?thesis
    using Pair v stable by (cases v) (auto simp: sample_date_def)
qed

lemma sample_fold:
  "distinct ts \<Longrightarrow>
   distinct (fst (fold (sample_date h la lo) ds (ts, st))) \<and>
   set (fst (fold (sample_date h la lo) ds (ts, st))) =
     set ts \<union> {tithi r | r d. d \<in> set ds \<and> lookup h la lo st d = Inr r \<and> tithi r \<noteq> []}"
proof (induction ds arbitrary: ts st)
  case Nil
  then show ?case by simp
next
  case (Cons d ds)
  let ?ts = "case lookup h la lo st d of
          Inr r \<Rightarrow> if tithi r \<noteq> [] then Set_add (tithi r) ts else ts
        | Inl e \<Rightarrow> ts"
  obtain st1 where 1: "sample_date h la lo d (ts, st) = (?ts, st1)"
    and 2: "\<And>d'. lookup h la lo st1 d' = lookup h la lo st d'"
    using sample_date_step [of h la lo d ts st] by blast
  have dist: "distinct ?ts"
    using Cons.prems by (simp split: sum.splits)
  have s: "set ?ts = set ts \<union> {tithi r | r. lookup h la lo st d = Inr r \<and> tithi r \<noteq> []}"
    by (auto split: sum.splits)
  from Cons.IH [OF dist, of st1]
  show ?case unfolding fold_simps 1 2 s by auto
qed

lemma zip_upt_nth: "zip xs [0..<length xs] = map (\<lambda>i. (xs ! i, i)) [0..<length xs]"
  by (rule nth_equalityI) simp_all

lemma k_bound: "k < (n + 14) div 15 \<longleftrightarrow> 15 * k < (n::nat)"
proof -
  have "k < (n + 14) div 15 \<longleftrightarrow> Suc k \<le> (n + 14) div 15" by (simp add: Suc_le_eq)
  also have "\<dots> \<longleftrightarrow> Suc k * 15 \<le> n + 14" by (simp only: less_eq_div_iff_mult_less_eq zero_less_numeral)
  also have "\<dots> \<longleftrightarrow> 15 * k < n" by simp linarith
  finally show ?thesis .
qed

lemma multiples_upt:
  "filter (\<lambda>i. i mod 15 = 0) [0..<n] = map (\<lambda>k. 15 * k) [0..<(n + 14) div 15]"
proof (rule sorted_distinct_set_unique)
  show "sorted (filter (\<lambda>i. i mod 15 = 0) [0..<n])" by (simp add: sorted_wrt_filter)
  show "distinct (filter (\<lambda>i. i mod 15 = 0) [0..<n])" by simp
  show "sorted (map (\<lambda>k. 15 * k) [0..<(n + 14) div 15])"
    by (simp add: sorted_map)
  show "distinct (map (\<lambda>k. 15 * k) [0..<(n + 14) div 15])"
    by (simp add: distinct_map inj_on_def)
  show "set (filter (\<lambda>i. i mod 15 = 0) [0..<n]) = set (map (\<lambda>k. 15 * k) [0..<(n + 14) div 15])"
  proof (intro equalityI subsetI)
    fix i assume "i \<in> set (filter (\<lambda>i. i mod 15 = 0) [0..<n])"
    then have i: "i < n" "i mod 15 = 0" by simp_all
    then have e: "i = 15 * (i div 15)" using mult_div_mod_eq [of 15 i] by simp
    with i have "i div 15 < (n + 14) div 15" by (simp only: k_bound)
    with e show "i \<in> set (map (\<lambda>k. 15 * k) [0..<(n + 14) div 15])"
      by (simp add: image_iff) (rule bexI [of _ "i div 15"], simp_all)
  next
    fix i assume "i \<in> set (map (\<lambda>k. 15 * k) [0..<(n + 14) div 15])"
    then obtain k where "i = 15 * k" "k < (n + 14) div 15" by auto
    then have "i < n" "i mod 15 = 0" by (simp_all add: k_bound)
    then show "i \<in> set (filter (\<lambda>i. i mod 15 = 0) [0..<n])" by simp
  qed
qed

lemma sampleDates_indices:
  "sampleDates dates = map (\<lambda>k. dates ! (15 * k)) [0..<(length dates + 14) div 15]"
proof -
  have "sampleDates dates = map (\<lambda>i. dates ! i) (filter (\<lambda>i. i mod 15 = 0) [0..<length dates])"
    by (simp add: sampleDates_def zip_upt_nth filter_map comp_def)
  then show ?thesis by (simp add: multiples_upt comp_def)
qed

lemma tithis_response:
  assumes "truthy la" "truthy lo"
  shows "get_tithis h y la lo st =
      ((200, TithisBody (sort (fst (fold (sample_date h la lo) (sampleDates (getDatesInCurrentYear y)) ([], st))))
         (ToString h la @ '', '' @ ToString h lo) ''Based on sample dates from current year''),
       snd (fold (sample_date h la lo) (sampleDates (getDatesInCurrentYear y)) ([], st)))"
  using assms by (simp add: get_tithis_def Let_def split: prod.splits)

lemma nth_calendar_days_7: "calendar_days y ! 7 = (1, 8)"
proof -
  have a: "[1..<13] = 1 # [2..<13]" by (simp add: upt_conv_Cons)
  have b: "month_length y 1 = 31" by (simp add: month_length_def)
  have "calendar_days y = map (\<lambda>d. (1, d)) [1..<Suc 31] @
      concat (map (\<lambda>m. map (\<lambda>d. (m, d)) [1..<Suc (month_length y m)]) [2..<13])"
    unfolding calendar_days_def a by (simp only: list.map concat.simps b)
  then show ?thesis by (simp add: nth_append del: upt_Suc)
qed

lemma date_index_7: "getDatesInCurrentYear 2024 ! 7 = ''2024-01-08''"
proof -
  have "7 < length (calendar_days 2024)" by (simp add: length_calendar_days)
  then show ?thesis
    by (simp add: dates_eq nth_calendar_days_7 iso_date_def digit_def)
qed

lemma sparse_lookup:
  "fst (getPanchangData sparse_host (JStr d) demo_lat demo_lng init_server) = Inr r \<Longrightarrow>
   tithi r = (if d = ''2024-01-08'' then ''Amavasya'' else ''Dashami'')"
  by (auto simp: getPanchangData_def sparse_host_def init_server_def Let_def panchangData_of_def
      called_def)

lemma sparse_lookup_ok:
  "\<exists>r. fst (getPanchangData sparse_host (JStr d) demo_lat demo_lng init_server) = Inr r"
  by (simp add: getPanchangData_def sparse_host_def init_server_def Let_def)

lemma singleton_list: "distinct xs \<Longrightarrow> set xs = {x} \<Longrightarrow> xs = [x]"
  by (cases xs) (auto simp: insert_eq_iff dest: subset_singletonD)

lemma sampleDates_nth:
  "sampleDates dates = map (\<lambda>i. dates ! i) (filter (\<lambda>i. i mod 15 = 0) [0..<length dates])"
  by (simp add: sampleDates_def zip_upt_nth filter_map comp_def)

lemma distinct_sampleDates: "distinct dates \<Longrightarrow> distinct (sampleDates dates)"
  unfolding sampleDates_nth by (simp add: distinct_map inj_on_nth)

lemma sample_date_state:
  shows "lib_calls (snd (sample_date h la lo d (ts, st))) =
       lib_calls st @ (if absent h la lo st d then new_calls h la lo d else [])"
    and "console (snd (sample_date h la lo d (ts, st))) =
       console st @ (if absent h la lo st d then sampling_errors h la lo d else [])"
    and "tithiSearchCache (snd (sample_date h la lo d (ts, st))) = tithiSearchCache st"
    and "immediates (snd (sample_date h la lo d (ts, st))) = immediates st"
    and "k \<noteq> getCacheKey h (JStr d) la lo \<Longrightarrow>
        map_of (panchangCache (snd (sample_date h la lo d (ts, st)))) k = map_of (panchangCache st) k"
    and "map_of (panchangCache (snd (sample_date h la lo d (ts, st)))) (getCacheKey h (JStr d) la lo) =
       (case lookup h la lo st d of Inr r \<Rightarrow> Some r | Inl e \<Rightarrow> None)"
proof -
  have "lib_calls (snd (sample_date h la lo d (ts, st))) =
       lib_calls st @ (if absent h la lo st d then new_calls h la lo d else []) \<and>
     console (snd (sample_date h la lo d (ts, st))) =
       console st @ (if absent h la lo st d then sampling_errors h la lo d else []) \<and>
     tithiSearchCache (snd (sample_date h la lo d (ts, st))) = tithiSearchCache st \<and>
     immediates (snd (sample_date h la lo d (ts, st))) = immediates st \<and>
     (k \<noteq> getCacheKey h (JStr d) la lo \<longrightarrow>
        map_of (panchangCache (snd (sample_date h la lo d (ts, st)))) k = map_of (panchangCache st) k) \<and>
     map_of (panchangCache (snd (sample_date h la lo d (ts, st)))) (getCacheKey h (JStr d) la lo) =
       (case lookup h la lo st d of Inr r \<Rightarrow> Some r | Inl e \<Rightarrow> None)"
  proof (cases "absent h la lo st d")
    case False
    then obtain r where hit: "map_of (panchangCache st) (getCacheKey h (JStr d) la lo) = Some r"
      by (auto simp: absent_def Map_has_def)
    then have "getPanchangData h (JStr d) la lo st = (Inr r, st)" by (rule gpd_hit)
    then show ?thesis
      using False hit by (simp add: sample_date_def lookup_def)
  next
    case True
    then have miss: "map_of (panchangCache st) (getCacheKey h (JStr d) la lo) = None"
      by (simp add: absent_def Map_has_def)
    obtain v st0 where g: "getPanchangData h (JStr d) la lo st = (v, st0)" by force
    with gpd_miss [OF miss] have v: "v = computed h (JStr d) la lo"
      and l: "lib_calls st0 = lib_calls st @ new_calls h la lo d"
      and m: "map_of (panchangCache st0) =
             (case computed h (JStr d) la lo of
                Inr r \<Rightarrow> (map_of (panchangCache st))(getCacheKey h (JStr d) la lo \<mapsto> r)
              | Inl e \<Rightarrow> map_of (panchangCache st))"
      by simp_all
    have u: "tithiSearchCache st0 = tithiSearchCache st" "immediates st0 = immediates st"
      "console st0 = console st"
      using gpd_untouched [of h "JStr d" la lo st] g by simp_all
    have lk: "lookup h la lo st d = computed h (JStr d) la lo"
      using g v by (simp add: lookup_def)
    show ?thesis
      using True g l m u miss
      by (cases v) (auto simp: sample_date_def lk sampling_errors_def v [symmetric])
  qed
  then show "lib_calls (snd (sample_date h la lo d (ts, st))) =
       lib_calls st @ (if absent h la lo st d then new_calls h la lo d else [])"
    and "console (snd (sample_date h la lo d (ts, st))) =
       console st @ (if absent h la lo st d then sampling_errors h la lo d else [])"
    and "tithiSearchCache (snd (sample_date h la lo d (ts, st))) = tithiSearchCache st"
    and "immediates (snd (sample_date h la lo d (ts, st))) = immediates st"
    and "k \<noteq> getCacheKey h (JStr d) la lo \<Longrightarrow>
        map_of (panchangCache (snd (sample_date h la lo d (ts, st)))) k = map_of (panchangCache st) k"
    and "map_of (panchangCache (snd (sample_date h la lo d (ts, st)))) (getCacheKey h (JStr d) la lo) =
       (case lookup h la lo st d of Inr r \<Rightarrow> Some r | Inl e \<Rightarrow> None)"
    by simp_all
qed

lemma sample_fold_state:
  assumes "distinct ds"
  shows "lib_calls (snd (fold (sample_date h la lo) ds (ts, st))) =
       lib_calls st @ concat (map (new_calls h la lo) (filter (absent h la lo st) ds)) \<and>
     console (snd (fold (sample_date h la lo) ds (ts, st))) =
       console st @ concat (map (sampling_errors h la lo) (filter (absent h la lo st) ds)) \<and>
     tithiSearchCache (snd (fold (sample_date h la lo) ds (ts, st))) = tithiSearchCache st \<and>
     immediates (snd (fold (sample_date h la lo) ds (ts, st))) = immediates st \<and>
     (\<forall>k. k \<notin> (\<lambda>d. getCacheKey h (JStr d) la lo) ` set ds \<longrightarrow>
        map_of (panchangCache (snd (fold (sample_date h la lo) ds (ts, st)))) k =
        map_of (panchangCache st) k) \<and>
     (\<forall>d\<in>set ds.
        map_of (panchangCache (snd (fold (sample_date h la lo) ds (ts, st))))
          (getCacheKey h (JStr d) la lo) =
        (case lookup h la lo st d of Inr r \<Rightarrow> Some r | Inl e \<Rightarrow> None))"
  using assms
proof (induction ds arbitrary: ts st)
  case Nil
  then show ?case by simp
next
  case (Cons d ds)
  let ?key = "\<lambda>d. getCacheKey h (JStr d) la lo"
  obtain ts1 st1 where sd: "sample_date h la lo d (ts, st) = (ts1, st1)" by force
  let ?st' = "snd (fold (sample_date h la lo) ds (ts1, st1))"
  note step = sample_date_state [where h = h and la = la and lo = lo and d = d and ts = ts and st = st,
      unfolded sd snd_conv]
  from Cons.prems have dn: "d \<notin> set ds" and dist: "distinct ds" by simp_all
  have same: "map_of (panchangCache st1) (?key d') = map_of (panchangCache st) (?key d')"
    if "d' \<in> set ds" for d'
  proof -
    from that dn have "?key d' \<noteq> ?key d" by auto
    then show ?thesis by (rule step(5))
  qed
  have f: "filter (absent h la lo st1) ds = filter (absent h la lo st) ds"
    by (rule filter_cong [OF refl], rule absent_cong, rule same)
  have unfold: "fold (sample_date h la lo) (d # ds) (ts, st) = fold (sample_date h la lo) ds (ts1, st1)"
    by (simp add: sd)
  note IH = Cons.IH [OF dist, of ts1 st1, unfolded f]
  note i1 = IH [THEN conjunct1]
  note r1 = IH [THEN conjunct2]
  note i2 = r1 [THEN conjunct1]
  note r2 = r1 [THEN conjunct2]
  note i3 = r2 [THEN conjunct1]
  note r3 = r2 [THEN conjunct2]
  note i4 = r3 [THEN conjunct1]
  note r4 = r3 [THEN conjunct2]
  have i5: "map_of (panchangCache ?st') k = map_of (panchangCache st1) k" if "k \<notin> ?key ` set ds" for k
    using r4 [THEN conjunct1] that by blast
  have i6: "map_of (panchangCache ?st') (?key d') =
        (case lookup h la lo st1 d' of Inr r \<Rightarrow> Some r | Inl e \<Rightarrow> None)" if "d' \<in> set ds" for d'
    using r4 [THEN conjunct2] that by blast
  have kd: "?key d \<notin> ?key ` set ds" using dn by auto
  show ?case unfolding unfold
  proof (intro conjI allI impI ballI)
    show "lib_calls ?st' =
       lib_calls st @ concat (map (new_calls h la lo) (filter (absent h la lo st) (d # ds)))"
      using i1 step(1) by simp
    show "console ?st' =
       console st @ concat (map (sampling_errors h la lo) (filter (absent h la lo st) (d # ds)))"
      using i2 step(2) by simp
    show "tithiSearchCache ?st' = tithiSearchCache st"
      using i3 step(3) by simp
    show "immediates ?st' = immediates st"
      using i4 step(4) by simp
  next
    fix k assume k: "k \<notin> ?key ` set (d # ds)"
    then have "k \<notin> ?key ` set ds" "k \<noteq> ?key d" by auto
    then show "map_of (panchangCache ?st') k = map_of (panchangCache st) k"
      using i5 [of k] step(5) [of k] by simp
  next
    fix d' assume "d' \<in> set (d # ds)"
    then consider "d' = d" | "d' \<in> set ds" by auto
    then show "map_of (panchangCache ?st') (?key d') =
        (case lookup h la lo st d' of Inr r \<Rightarrow> Some r | Inl e \<Rightarrow> None)"
    proof cases
      case 1
      then show ?thesis using i5 [OF kd] step(6) by simp
    next
      case 2
      then show ?thesis using i6 [OF 2] lookup_cong [OF same [OF 2]] by simp
    qed
  qed
qed

lemma sparse_calls:
  "new_calls sparse_host demo_lat demo_lng d =
     [Calendar d ''12.9716'' ''77.5946'', SunTimer d ''12.9716'' ''77.5946'']"
  by (simp add: new_calls_eq sparse_host_def demo_lat_def demo_lng_def)

text \<open>
  C9. \<^verbatim>\<open>GET /tithis\<close> goes through the dates with the indices 0, 15, 30, ... of the
  enumeration of the current year, and through no other date: it calls the library for
  those of these dates whose key is not in \<^verbatim>\<open>panchangCache\<close>, in their order, and for
  no other date; afterwards each sampled date is cached when its lookup gave a record,
  and no other key has changed. Its answer lists, sorted and each once, the tithi
  values (those that are not the empty string) of the records that the lookups of these
  dates give; so a tithi that no sampled date has is not in the answer. A sampled date
  whose computation throws gets a line on the console and gives no value.
\<close>

theorem suggestion_sampler:
  fixes h :: host and lat lng :: jsval and st :: server and currentYear :: nat
  defines "dates \<equiv> getDatesInCurrentYear currentYear"
  defines "sampled \<equiv> map (\<lambda>k. dates ! (15 * k)) [0..<(length dates + 14) div 15]"
  defines "todo \<equiv> filter (\<lambda>d. \<not> Map_has (panchangCache st) (getCacheKey h (JStr d) lat lng)) sampled"
  assumes "truthy lat" and "truthy lng"
  shows "\<exists>tithis st'. get_tithis h currentYear lat lng st =
       ((200, TithisBody tithis (ToString h lat @ '', '' @ ToString h lng)
          ''Based on sample dates from current year''), st') \<and>
     sorted tithis \<and> distinct tithis \<and>
     set tithis = {tithi r | r k. 15 * k < length dates \<and>
        fst (getPanchangData h (JStr (dates ! (15 * k))) lat lng st) = Inr r \<and> tithi r \<noteq> []} \<and>
     sampleDates dates = sampled \<and>
     lib_calls st' = lib_calls st @ concat (map (new_calls h lat lng) todo) \<and>
     (\<forall>d. \<exists>rest. new_calls h lat lng d = Calendar d (ToString h lat) (ToString h lng) # rest \<and>
        length rest \<le> 1) \<and>
     console st' = console st @ concat (map (\<lambda>d.
        case fst (getPanchangData h (JStr d) lat lng init_server) of
          Inl e \<Rightarrow> [''Error processing '' @ d @ '': '' @ message e]
        | Inr r \<Rightarrow> []) todo) \<and>
     (\<forall>d\<in>set sampled. map_of (panchangCache st') (getCacheKey h (JStr d) lat lng) =
        (case fst (getPanchangData h (JStr d) lat lng st) of Inr r \<Rightarrow> Some r | Inl e \<Rightarrow> None)) \<and>
     (\<forall>k. k \<notin> (\<lambda>d. getCacheKey h (JStr d) lat lng) ` set sampled \<longrightarrow>
        map_of (panchangCache st') k = map_of (panchangCache st) k) \<and>
     tithiSearchCache st' = tithiSearchCache st \<and> immediates st' = immediates st"
proof -
  let ?F = "fold (sample_date h lat lng) (sampleDates dates) ([], st)"
  let ?ts = "fst ?F"
  let ?st' = "snd ?F"
  have r: "get_tithis h currentYear lat lng st =
      ((200, TithisBody (sort ?ts) (ToString h lat @ '', '' @ ToString h lng)
         ''Based on sample dates from current year''), ?st')"
    using tithis_response [OF assms(4,5), of h currentYear st] unfolding dates_def .
  have f: "distinct ?ts" "set ?ts = {tithi r | r d. d \<in> set (sampleDates dates) \<and>
      lookup h lat lng st d = Inr r \<and> tithi r \<noteq> []}"
    using sample_fold [of "[]" h lat lng "sampleDates dates" st] by simp_all
  have sd: "sampleDates dates = sampled"
    unfolding sampled_def by (rule sampleDates_indices)
  have "d \<in> set (sampleDates dates) \<longleftrightarrow> (\<exists>k. 15 * k < length dates \<and> d = dates ! (15 * k))" for d
    unfolding sampleDates_indices by (auto simp: k_bound)
  then have s: "set ?ts = {tithi r | r k. 15 * k < length dates \<and>
        fst (getPanchangData h (JStr (dates ! (15 * k))) lat lng st) = Inr r \<and> tithi r \<noteq> []}"
    unfolding f(2) lookup_def by auto
  have dist: "distinct (sampleDates dates)"
    unfolding dates_def by (rule distinct_sampleDates) (rule distinct_dates_all)
  have todo: "todo = filter (absent h lat lng st) (sampleDates dates)"
    by (simp add: todo_def sd absent_def [abs_def])
  note S = sample_fold_state [OF dist, of h lat lng "[]" st, folded todo]
  have se: "sampling_errors h lat lng = (\<lambda>d.
        case fst (getPanchangData h (JStr d) lat lng init_server) of
          Inl e \<Rightarrow> [''Error processing '' @ d @ '': '' @ message e]
        | Inr r \<Rightarrow> [])"
    by (rule ext) (simp add: sampling_errors_def computed_def)
  have "sorted (sort ?ts) \<and> distinct (sort ?ts) \<and>
     set (sort ?ts) = {tithi r | r k. 15 * k < length dates \<and>
        fst (getPanchangData h (JStr (dates ! (15 * k))) lat lng st) = Inr r \<and> tithi r \<noteq> []} \<and>
     sampleDates dates = sampled \<and>
     lib_calls ?st' = lib_calls st @ concat (map (new_calls h lat lng) todo) \<and>
     (\<forall>d. \<exists>rest. new_calls h lat lng d = Calendar d (ToString h lat) (ToString h lng) # rest \<and>
        length rest \<le> 1) \<and>
     console ?st' = console st @ concat (map (\<lambda>d.
        case fst (getPanchangData h (JStr d) lat lng init_server) of
          Inl e \<Rightarrow> [''Error processing '' @ d @ '': '' @ message e]
        | Inr r \<Rightarrow> []) todo) \<and>
     (\<forall>d\<in>set sampled. map_of (panchangCache ?st') (getCacheKey h (JStr d) lat lng) =
        (case fst (getPanchangData h (JStr d) lat lng st) of Inr r \<Rightarrow> Some r | Inl e \<Rightarrow> None)) \<and>
     (\<forall>k. k \<notin> (\<lambda>d. getCacheKey h (JStr d) lat lng) ` set sampled \<longrightarrow>
        map_of (panchangCache ?st') k = map_of (panchangCache st) k) \<and>
     tithiSearchCache ?st' = tithiSearchCache st \<and> immediates ?st' = immediates st"
  proof (intro conjI allI ballI impI)
    show "sorted (sort ?ts)" by simp
    show "distinct (sort ?ts)" using f(1) by simp
    show "set (sort ?ts) = {tithi r | r k. 15 * k < length dates \<and>
        fst (getPanchangData h (JStr (dates ! (15 * k))) lat lng st) = Inr r \<and> tithi r \<noteq> []}"
      using s by simp
    show "sampleDates dates = sampled" by (rule sd)
    show "lib_calls ?st' = lib_calls st @ concat (map (new_calls h lat lng) todo)"
      using S by (rule conjunct1)
    show "\<exists>rest. new_calls h lat lng d = Calendar d (ToString h lat) (ToString h lng) # rest \<and>
        length rest \<le> 1" for d
      by (simp add: new_calls_eq split: sum.splits)
    show "console ?st' = console st @ concat (map (\<lambda>d.
        case fst (getPanchangData h (JStr d) lat lng init_server) of
          Inl e \<Rightarrow> [''Error processing '' @ d @ '': '' @ message e]
        | Inr r \<Rightarrow> []) todo)"
      unfolding se [symmetric] using S [THEN conjunct2] by (rule conjunct1)
    show "tithiSearchCache ?st' = tithiSearchCache st"
      using S [THEN conjunct2, THEN conjunct2] by (rule conjunct1)
    show "immediates ?st' = immediates st"
      using S [THEN conjunct2, THEN conjunct2, THEN conjunct2] by (rule conjunct1)
  next
    fix d assume "d \<in> set sampled"
    then show "map_of (panchangCache ?st') (getCacheKey h (JStr d) lat lng) =
        (case fst (getPanchangData h (JStr d) lat lng st) of Inr r \<Rightarrow> Some r | Inl e \<Rightarrow> None)"
      using S [THEN conjunct2, THEN conjunct2, THEN conjunct2, THEN conjunct2, THEN conjunct2]
      unfolding sd by (simp add: lookup_def)
  next
    fix k assume "k \<notin> (\<lambda>d. getCacheKey h (JStr d) lat lng) ` set sampled"
    then show "map_of (panchangCache ?st') k = map_of (panchangCache st) k"
      using S [THEN conjunct2, THEN conjunct2, THEN conjunct2, THEN conjunct2, THEN conjunct1]
      unfolding sd by blast
  qed
  then show ?thesis
    using r by (intro exI [of _ "sort ?ts"] exI [of _ ?st']) (rule conjI)
qed

text \<open>
  In 2024 the date with index 7 is January 8. With a host that gives Amavasya on that
  date only, the answer does not hold it; the 25 sampled dates are computed, and
  January 8 is neither computed nor cached.
\<close>

theorem suggestion_sampler_witness:
  "getDatesInCurrentYear 2024 ! 7 = ''2024-01-08'' \<and>
   (\<exists>r. fst (getPanchangData sparse_host (JStr ''2024-01-08'') demo_lat demo_lng init_server) = Inr r \<and>
        tithi r = ''Amavasya'') \<and>
   (\<exists>st'. get_tithis sparse_host 2024 demo_lat demo_lng init_server =
      ((200, TithisBody [''Dashami''] ''12.9716, 77.5946''
          ''Based on sample dates from current year''), st') \<and>
      length (lib_calls st') = 50 \<and>
      Calendar ''2024-01-08'' ''12.9716'' ''77.5946'' \<notin> set (lib_calls st') \<and>
      map_of (panchangCache st') ''2024-01-08_12.9716_77.5946'' = None)"
proof (intro conjI)
  show "getDatesInCurrentYear 2024 ! 7 = ''2024-01-08''" by (rule date_index_7)
  show "\<exists>r. fst (getPanchangData sparse_host (JStr ''2024-01-08'') demo_lat demo_lng init_server) = Inr r \<and>
        tithi r = ''Amavasya''"
    using sparse_lookup_ok [of "''2024-01-08''"] sparse_lookup [of "''2024-01-08''"] by auto
  let ?dates = "getDatesInCurrentYear 2024"
  let ?sampled = "map (\<lambda>k. ?dates ! (15 * k)) [0..<(length ?dates + 14) div 15]"
  let ?key = "\<lambda>d. getCacheKey sparse_host (JStr d) demo_lat demo_lng"
  have n: "length ?dates = 366"
    by (simp add: dates_eq length_calendar_days)
  have dd: "distinct ?dates"
    by (rule distinct_dates_all)
  have t: "truthy demo_lat" "truthy demo_lng" by (simp_all add: demo_lat_def demo_lng_def)
  have todo: "filter (\<lambda>d. \<not> Map_has (panchangCache init_server) (?key d)) ?sampled = ?sampled"
    by (simp add: init_server_def Map_has_def)
  from suggestion_sampler [OF t, of sparse_host 2024 init_server]
  obtain ts st' where r: "get_tithis sparse_host 2024 demo_lat demo_lng init_server =
       ((200, TithisBody ts (ToString sparse_host demo_lat @ '', '' @ ToString sparse_host demo_lng)
          ''Based on sample dates from current year''), st')"
    and d: "distinct ts"
    and s: "set ts = {tithi r | r k. 15 * k < length ?dates \<and>
        fst (getPanchangData sparse_host (JStr (?dates ! (15 * k))) demo_lat demo_lng init_server) = Inr r \<and>
        tithi r \<noteq> []}"
    and lc: "lib_calls st' = lib_calls init_server @
        concat (map (new_calls sparse_host demo_lat demo_lng) ?sampled)"
    and off: "\<And>k. k \<notin> ?key ` set ?sampled \<Longrightarrow>
        map_of (panchangCache st') k = map_of (panchangCache init_server) k"
    unfolding todo by blast
  have other: "?dates ! (15 * k) \<noteq> ''2024-01-08''" if "15 * k < length ?dates" for k
  proof
    assume "?dates ! (15 * k) = ''2024-01-08''"
    then have "?dates ! (15 * k) = ?dates ! 7" by (simp add: date_index_7)
    then have "15 * k = 7" using that n dd by (simp add: nth_eq_iff_index_eq)
    then show False by presburger
  qed
  have ns: "''2024-01-08'' \<notin> set ?sampled"
  proof
    assume "''2024-01-08'' \<in> set ?sampled"
    then obtain k where "15 * k < length ?dates" "?dates ! (15 * k) = ''2024-01-08''"
      by (auto simp: k_bound)
    then show False using other by blast
  qed
  have "set ts = {''Dashami''}"
  proof (intro equalityI subsetI)
    fix x assume "x \<in> set ts"
    then obtain r k where "x = tithi r" "15 * k < length ?dates"
      "fst (getPanchangData sparse_host (JStr (?dates ! (15 * k))) demo_lat demo_lng init_server) = Inr r"
      unfolding s by blast
    then show "x \<in> {''Dashami''}" using sparse_lookup other by auto
  next
    fix x assume "x \<in> {''Dashami''}"
    then have x: "x = ''Dashami''" by simp
    obtain r where l: "fst (getPanchangData sparse_host (JStr (?dates ! (15 * 0))) demo_lat demo_lng init_server) = Inr r"
      using sparse_lookup_ok by blast
    then have "tithi r = ''Dashami''" using sparse_lookup [OF l] other [of 0] n by simp
    then show "x \<in> set ts" unfolding s x using l n by (auto intro!: exI [of _ r] exI [of _ 0])
  qed
  then have ts: "ts = [''Dashami'']" using d by (rule singleton_list [rotated])
  have len: "length (lib_calls st') = 50"
  proof -
    have "length (concat (map (new_calls sparse_host demo_lat demo_lng) ?sampled)) = 2 * length ?sampled"
      by (rule length_concat_const) (simp add: sparse_calls)
    then show ?thesis unfolding lc by (simp add: n init_server_def)
  qed
  have nocall: "Calendar ''2024-01-08'' ''12.9716'' ''77.5946'' \<notin> set (lib_calls st')"
  proof
    assume "Calendar ''2024-01-08'' ''12.9716'' ''77.5946'' \<in> set (lib_calls st')"
    then obtain d where "d \<in> set ?sampled"
      "Calendar ''2024-01-08'' ''12.9716'' ''77.5946'' \<in> set (new_calls sparse_host demo_lat demo_lng d)"
      unfolding lc by (auto simp: init_server_def)
    then have "''2024-01-08'' \<in> set ?sampled" by (simp add: sparse_calls)
    with ns show False ..
  qed
  have "?key ''2024-01-08'' \<notin> ?key ` set ?sampled"
    using ns by auto
  from off [OF this] have nocache: "map_of (panchangCache st') ''2024-01-08_12.9716_77.5946'' = None"
    by (simp add: getCacheKey_def demo_lat_def demo_lng_def init_server_def)
  show "\<exists>st'. get_tithis sparse_host 2024 demo_lat demo_lng init_server =
      ((200, TithisBody [''Dashami''] ''12.9716, 77.5946''
          ''Based on sample dates from current year''), st') \<and>
      length (lib_calls st') = 50 \<and>
      Calendar ''2024-01-08'' ''12.9716'' ''77.5946'' \<notin> set (lib_calls st') \<and>
      map_of (panchangCache st') ''2024-01-08_12.9716_77.5946'' = None"
    using r ts len nocall nocache
    by (intro exI [of _ st']) (simp add: demo_lat_def demo_lng_def)
qed

end
